theory Spec2Isabelle
  imports Complex_Main
begin

section \<open>BalderJS 11.2: input trackers, scene objects and the layer registry\<close>

text \<open>
  A shallow embedding of \<^verbatim>\<open>balder.ts\<close>. Conventions used throughout:
  \<^item> a JavaScript \<^verbatim>\<open>number\<close> that carries a coordinate, a size or a time is a \<^typ>\<open>real\<close>:
    arithmetic is exact and rounding is outside the model; where the code divides by a count
    that may be zero the quotient is a \<open>js_number\<close>, which has the infinities and NaN, and where a
    result depends on the sign of a zero the function gives the set of the possible results;
    counts, indices and button numbers are \<^typ>\<open>nat\<close>, layer ids are \<^typ>\<open>int\<close>;
  \<^item> a value of type \<^verbatim>\<open>boolean | null\<close> is a \<open>tri\<close>; \<^verbatim>\<open>undefined\<close> (a missing property, an
    array hole, a read past the end) is \<^const>\<open>None\<close>;
  \<^item> a module-level variable \<^verbatim>\<open>_name\<close> is the record field \<open>name\<close> of the tracker it belongs to;
  \<^item> every function that mutates takes the state and returns the new one;
  \<^item> pixels are not modelled: a call that only paints on the active surface changes nothing here.
\<close>

subsection \<open>Values\<close>

datatype tri = Bool bool | Null

text \<open>Truthiness (\<^verbatim>\<open>!!v\<close>, and the test of \<^verbatim>\<open>some(value => value)\<close>): only \<^verbatim>\<open>true\<close> passes.\<close>

fun truthy :: "tri option \<Rightarrow> bool" where
  "truthy (Some (Bool b)) = b"
| "truthy (Some Null) = False"
| "truthy None = False"

text \<open>
  A JavaScript array with holes. Reading past the end gives \<^verbatim>\<open>undefined\<close>; writing past the end
  extends the array, leaving holes.
\<close>

definition array_get :: "'a option list \<Rightarrow> nat \<Rightarrow> 'a option" where
  "array_get xs i = (if i < length xs then xs ! i else None)"

definition array_set :: "'a option list \<Rightarrow> nat \<Rightarrow> 'a \<Rightarrow> 'a option list" where
  "array_set xs i v =
     (if i < length xs then xs[i := Some v]
      else xs @ replicate (i - length xs) None @ [Some v])"

subsection \<open>Keyboard\<close>

record keyboard_state =
  keys :: "string \<Rightarrow> tri option"
  keyName :: "string option"

definition keyboard_init :: keyboard_state where
  "keyboard_init = \<lparr>keys = Map.empty, keyName = None\<rparr>"

text \<open>The \<^verbatim>\<open>keydown\<close> listener.\<close>

definition keydown :: "string \<Rightarrow> keyboard_state \<Rightarrow> keyboard_state" where
  "keydown code s =
     (if keys s code \<noteq> Some (Bool False)
      then s\<lparr>keys := (keys s)(code \<mapsto> Bool True), keyName := Some code\<rparr>
      else s)"

text \<open>The \<^verbatim>\<open>keyup\<close> listener, with its \<^verbatim>\<open>switch\<close> on the two shift and the two enter keys.\<close>

definition keyup :: "string \<Rightarrow> keyboard_state \<Rightarrow> keyboard_state" where
  "keyup code s =
     (let ks = (keys s)(code \<mapsto> Null) in
      s\<lparr>keys :=
        (if code = ''ShiftLeft'' then ks(''ShiftRight'' \<mapsto> Null)
         else if code = ''ShiftRight'' then ks(''ShiftLeft'' \<mapsto> Null)
         else if code = ''NumpadEnter'' then ks(''Enter'' \<mapsto> Null)
         else if code = ''Enter'' then ks(''NumpadEnter'' \<mapsto> Null)
         else ks)\<rparr>)"

text \<open>The \<^verbatim>\<open>blur\<close> listener of the window.\<close>

definition blur :: "keyboard_state \<Rightarrow> keyboard_state" where
  "blur s = s\<lparr>keys := Map.empty\<rparr>"

text \<open>
  The accessors of \<^verbatim>\<open>keyboard\<close>. The twelve named pairs have one shape: the getter returns
  \<^verbatim>\<open>!!_keys[code]\<close> and the setter, whose argument is typed \<^verbatim>\<open>false\<close>, stores it under the code.
  \<^verbatim>\<open>keyboard.keys[code]\<close> used as a condition reads the same truth value for any code.
\<close>

definition accessors :: "(string \<times> string) list" where
  "accessors =
     [(''space'', ''Space''), (''tab'', ''Tab''), (''enter'', ''Enter''), (''escape'', ''Escape''),
      (''left'', ''ArrowLeft''), (''up'', ''ArrowUp''), (''right'', ''ArrowRight''),
      (''down'', ''ArrowDown''), (''a'', ''KeyA''), (''d'', ''KeyD''), (''s'', ''KeyS''),
      (''w'', ''KeyW'')]"

definition key_get :: "string \<Rightarrow> keyboard_state \<Rightarrow> bool" where
  "key_get code s = truthy (keys s code)"

definition key_set_false :: "string \<Rightarrow> keyboard_state \<Rightarrow> keyboard_state" where
  "key_set_false code s = s\<lparr>keys := (keys s)(code \<mapsto> Bool False)\<rparr>"

definition keyboard_pressed :: "string list \<Rightarrow> keyboard_state \<Rightarrow> bool" where
  \<comment> \<open>\<^verbatim>\<open>keyboard.pressed\<close>; the first argument lists \<^verbatim>\<open>Object.keys(_keys)\<close>\<close>
  "keyboard_pressed ks s = list_ex (\<lambda>k. keys s k = Some (Bool True)) ks"

text \<open>The keyboard as a machine driven by events: the three listeners and the consumer's reset.\<close>

datatype key_event = KeyDown string | KeyUp string | Blur | Reset string

fun key_step :: "key_event \<Rightarrow> keyboard_state \<Rightarrow> keyboard_state" where
  "key_step (KeyDown c) s = keydown c s"
| "key_step (KeyUp c) s = keyup c s"
| "key_step Blur s = blur s"
| "key_step (Reset c) s = key_set_false c s"

fun key_run :: "key_event list \<Rightarrow> keyboard_state \<Rightarrow> keyboard_state" where
  "key_run [] s = s"
| "key_run (e # es) s = key_run es (key_step e s)"

text \<open>The value the query of \<open>code\<close> has after each event of a run.\<close>

fun query_trace :: "string \<Rightarrow> key_event list \<Rightarrow> keyboard_state \<Rightarrow> bool list" where
  "query_trace code [] s = []"
| "query_trace code (e # es) s = key_get code (key_step e s) # query_trace code es (key_step e s)"

text \<open>The number of steps from \<open>False\<close> to \<open>True\<close> in a sequence of readings that follows \<open>prev\<close>.\<close>

fun rising :: "bool \<Rightarrow> bool list \<Rightarrow> nat" where
  "rising prev [] = 0"
| "rising prev (b # bs) = (if \<not> prev \<and> b then 1 else 0) + rising b bs"

text \<open>
  The key whose state a release of \<open>c\<close> also clears, read off the \<^verbatim>\<open>switch\<close> of the listener.
\<close>

definition coupled :: "string \<Rightarrow> string option" where
  "coupled c =
     (if c = ''ShiftLeft'' then Some ''ShiftRight''
      else if c = ''ShiftRight'' then Some ''ShiftLeft''
      else if c = ''NumpadEnter'' then Some ''Enter''
      else if c = ''Enter'' then Some ''NumpadEnter''
      else None)"

text \<open>
  What can happen while the key \<open>code\<close> is held down: repeated \<^verbatim>\<open>keydown\<close>s of it, resets by the
  consumer, and events of other keys that do not write the entry of \<open>code\<close>.
\<close>

fun while_held :: "string \<Rightarrow> key_event \<Rightarrow> bool" where
  "while_held code (KeyDown c) = True"
| "while_held code (Reset c) = True"
| "while_held code (KeyUp c) = (c \<noteq> code \<and> coupled c \<noteq> Some code)"
| "while_held code Blur = False"

subsection \<open>Mouse and touch screen\<close>

record touch =
  touch_x :: real
  touch_y :: real
  touch_identifier :: int

record pointer_state =
  mouseX :: real
  mouseY :: real
  mouseOver :: "bool option"
  buttons :: "tri option list"
  touches :: "touch list"
  touchable :: bool

definition pointer_init :: pointer_state where
  "pointer_init =
     \<lparr>mouseX = -1, mouseY = -1, mouseOver = None, buttons = [], touches = [], touchable = True\<rparr>"

definition mousedown :: "nat \<Rightarrow> pointer_state \<Rightarrow> pointer_state" where
  "mousedown button s =
     (if array_get (buttons s) button \<noteq> Some (Bool False)
      then s\<lparr>buttons := array_set (buttons s) button (Bool True)\<rparr>
      else s)"

definition mouseup :: "nat \<Rightarrow> pointer_state \<Rightarrow> pointer_state" where
  "mouseup button s = s\<lparr>buttons := array_set (buttons s) button Null\<rparr>"

definition mousemove :: "real \<Rightarrow> real \<Rightarrow> real \<Rightarrow> real \<Rightarrow> pointer_state \<Rightarrow> pointer_state" where
  \<comment> \<open>\<open>clientX\<close>, \<open>clientY\<close> of the event; \<open>left\<close>, \<open>top\<close> of the bounding rectangle\<close>
  "mousemove clientX clientY rleft rtop s =
     s\<lparr>mouseX := clientX - rleft, mouseY := clientY - rtop, mouseOver := Some True\<rparr>"

definition mouseout :: "pointer_state \<Rightarrow> pointer_state" where
  "mouseout s = s\<lparr>mouseOver := Some False, buttons := []\<rparr>"

definition mouse_set_left_false :: "pointer_state \<Rightarrow> pointer_state" where
  "mouse_set_left_false s = s\<lparr>buttons := array_set (buttons s) 0 (Bool False)\<rparr>"

definition mouse_set_right_false :: "pointer_state \<Rightarrow> pointer_state" where
  "mouse_set_right_false s = s\<lparr>buttons := array_set (buttons s) 2 (Bool False)\<rparr>"

text \<open>
  \<^verbatim>\<open>_touchHandler\<close>, for \<^verbatim>\<open>touchstart\<close>, \<^verbatim>\<open>touchend\<close> and \<^verbatim>\<open>touchmove\<close>: the argument lists
  \<^verbatim>\<open>event.touches\<close> as (\<open>clientX\<close>, \<open>clientY\<close>, \<open>identifier\<close>).
\<close>

definition touchHandler :: "(real \<times> real \<times> int) list \<Rightarrow> real \<Rightarrow> real \<Rightarrow> pointer_state \<Rightarrow> pointer_state" where
  "touchHandler ts rleft rtop s =
     (let new = map (\<lambda>(cx, cy, i). \<lparr>touch_x = cx - rleft, touch_y = cy - rtop, touch_identifier = i\<rparr>) ts in
      s\<lparr>touches := new, touchable := (if length new = 0 then True else touchable s)\<rparr>)"

definition touchscreen_x :: "pointer_state \<Rightarrow> real" where
  "touchscreen_x s = (if length (touches s) > 0 then touch_x (touches s ! 0) else -1)"

definition touchscreen_y :: "pointer_state \<Rightarrow> real" where
  "touchscreen_y s = (if length (touches s) > 0 then touch_y (touches s ! 0) else -1)"

definition touched :: "pointer_state \<Rightarrow> bool" where
  "touched s = (touchable s \<and> length (touches s) > 0)"

definition touched_set_false :: "pointer_state \<Rightarrow> pointer_state" where
  "touched_set_false s = s\<lparr>touchable := False\<rparr>"

text \<open>
  The condition both \<^verbatim>\<open>Hitbox.clicked\<close> and \<^verbatim>\<open>Grid.activated\<close> open with, and the point they read.
\<close>

definition pressed :: "pointer_state \<Rightarrow> bool" where
  "pressed s = (touched s \<or> list_ex truthy (buttons s))"

definition pointer_x :: "pointer_state \<Rightarrow> real" where
  "pointer_x s = (if touched s then touchscreen_x s else mouseX s)"

definition pointer_y :: "pointer_state \<Rightarrow> real" where
  "pointer_y s = (if touched s then touchscreen_y s else mouseY s)"

subsection \<open>Hitbox\<close>

text \<open>
  The untyped \<^verbatim>\<open>tag\<close> is never read by the library; it lives in the extension part of the record,
  as do the fields of the subclasses.
\<close>

record hitbox =
  hb_x :: real
  hb_y :: real
  hb_width :: real
  hb_height :: real
  hb_layer :: int
  clickable :: bool

definition Hitbox :: "int \<Rightarrow> real \<Rightarrow> real \<Rightarrow> real \<Rightarrow> real \<Rightarrow> hitbox" where
  \<comment> \<open>the first argument is the value of \<^verbatim>\<open>_layer\<close> when the object is created\<close>
  "Hitbox cur x y w h =
     \<lparr>hb_x = x, hb_y = y, hb_width = w, hb_height = h, hb_layer = cur, clickable = True\<rparr>"

definition intersects :: "'a hitbox_scheme \<Rightarrow> 'b hitbox_scheme \<Rightarrow> bool" where
  "intersects h other =
     (hb_x h + hb_width h > hb_x other \<and>
      hb_x h < hb_x other + hb_width other \<and>
      hb_y h + hb_height h > hb_y other \<and>
      hb_y h < hb_y other + hb_height other)"

definition contains :: "'a hitbox_scheme \<Rightarrow> real \<Rightarrow> real \<Rightarrow> bool" where
  "contains h x y =
     (hb_x h + hb_width h > x \<and>
      hb_x h \<le> x \<and>
      hb_y h + hb_height h > y \<and>
      hb_y h \<le> y)"

text \<open>The getter \<^verbatim>\<open>clicked\<close>: its result and the hitbox it leaves behind.\<close>

definition clicked :: "pointer_state \<Rightarrow> 'a hitbox_scheme \<Rightarrow> bool \<times> 'a hitbox_scheme" where
  "clicked s h =
     (if pressed s then
        (if clickable h then
           (let h' = h\<lparr>clickable := False\<rparr>;
                x = pointer_x s;
                y = pointer_y s
            in (contains h' x y, h'))
         else (False, h))
      else (False, h\<lparr>clickable := True\<rparr>))"

text \<open>One reading of \<^verbatim>\<open>clicked\<close> for each listed state of the pointer, in order.\<close>

fun queries :: "pointer_state list \<Rightarrow> 'a hitbox_scheme \<Rightarrow> bool list \<times> 'a hitbox_scheme" where
  "queries [] h = ([], h)"
| "queries (s # ss) h =
     (let (r, h') = clicked s h; (rs, h'') = queries ss h' in (r # rs, h''))"

subsection \<open>Layer registry\<close>

text \<open>
  A canvas element made by \<^verbatim>\<open>setLayer\<close>: its pixel size and the \<^verbatim>\<open>z-index\<close> of its style (the
  source stores \<^verbatim>\<open>layer.toString()\<close>; the integer is kept). \<open>W\<close> and \<open>H\<close> are computed pixel
  lengths, hence natural numbers. The 2-D context of the canvas made for layer \<open>l\<close> is
  \<open>Context2d l\<close>; a layer is made at most once, since nothing removes an entry of \<^verbatim>\<open>_ctxs\<close>.
\<close>

record canvasLayer =
  cl_width :: nat
  cl_height :: nat
  zIndex :: int

datatype context2d = Context2d int

record registry =
  canvas_display :: string
  W :: nat
  H :: nat
  canvasLayers :: "int \<Rightarrow> canvasLayer option"
  ctxs :: "int \<Rightarrow> context2d option"
  layer :: int
  ctx :: "context2d option"
  children :: "int list"

text \<open>
  \<open>children\<close> lists the canvases under the container in document order, each named by its layer:
  \<^verbatim>\<open>element("canvas", canvas)\<close> appends.
\<close>

definition setLayer :: "int \<Rightarrow> registry \<Rightarrow> registry" where
  "setLayer l s =
     (let s1 =
        (if ctxs s l = None then
           s\<lparr>children := children s @ [l],
             canvasLayers := (canvasLayers s)(l \<mapsto> \<lparr>cl_width = W s, cl_height = H s, zIndex = l\<rparr>),
             ctxs := (ctxs s)(l \<mapsto> Context2d l)\<rparr>
         else s)
      in s1\<lparr>layer := l, ctx := ctxs s1 l\<rparr>)"

text \<open>
  \<^verbatim>\<open>resetCanvas\<close>; the first two arguments are the computed width and height of the container.
\<close>

definition resetCanvas :: "nat \<Rightarrow> nat \<Rightarrow> registry \<Rightarrow> registry" where
  "resetCanvas w h s =
     setLayer 0
       (s\<lparr>canvas_display := [],
          W := w,
          H := h,
          canvasLayers :=
            (\<lambda>k. map_option (\<lambda>c. c\<lparr>cl_width := w, cl_height := h\<rparr>) (canvasLayers s k))\<rparr>)"

text \<open>
  The registry when the script has loaded: the declarations, then the top-level call of
  \<^verbatim>\<open>resetCanvas\<close>, which assigns \<^verbatim>\<open>W\<close>, \<^verbatim>\<open>H\<close>, \<^verbatim>\<open>_layer\<close> and \<^verbatim>\<open>ctx\<close> before anything reads them.
\<close>

definition registry_boot :: "nat \<Rightarrow> nat \<Rightarrow> registry" where
  "registry_boot w h =
     resetCanvas w h
       \<lparr>canvas_display = [], W = 0, H = 0, canvasLayers = Map.empty, ctxs = Map.empty,
        layer = 0, ctx = None, children = []\<rparr>"

datatype registry_op = SetLayer int | ResetCanvas nat nat

fun registry_step :: "registry_op \<Rightarrow> registry \<Rightarrow> registry" where
  "registry_step (SetLayer l) s = setLayer l s"
| "registry_step (ResetCanvas w h) s = resetCanvas w h s"

fun registry_run :: "registry_op list \<Rightarrow> registry \<Rightarrow> registry" where
  "registry_run [] s = s"
| "registry_run (operation # ops) s = registry_run ops (registry_step operation s)"

text \<open>Every surface has the size of the viewport.\<close>

definition same_size :: "registry \<Rightarrow> bool" where
  "same_size s =
     (\<forall>k c. canvasLayers s k = Some c \<longrightarrow> cl_width c = W s \<and> cl_height c = H s)"

text \<open>
  The registry is well formed: a layer has a context exactly when it has a canvas, the context is
  the one of that canvas, and the canvas carries the layer's number as its \<^verbatim>\<open>z-index\<close>.
\<close>

definition registry_ok :: "registry \<Rightarrow> bool" where
  "registry_ok s =
     (same_size s \<and>
      (\<forall>k. (ctxs s k = None) = (canvasLayers s k = None)) \<and>
      (\<forall>k c. ctxs s k = Some c \<longrightarrow> c = Context2d k) \<and>
      (\<forall>k c. canvasLayers s k = Some c \<longrightarrow> zIndex c = k))"

text \<open>
  Every \<^verbatim>\<open>draw\<close> method saves \<^verbatim>\<open>_layer\<close>, switches to the layer of its object, paints, and switches
  back.
\<close>

definition draw_on :: "int \<Rightarrow> registry \<Rightarrow> registry" where
  "draw_on l s = (let saved = layer s in setLayer saved (setLayer l s))"

subsection \<open>Cells and grids\<close>

text \<open>
  Cells are objects shared by reference between a grid and its callers, so they live in a store:
  \<^verbatim>\<open>new Cell(...)\<close> takes the next free address. A custom drawing callback is an arbitrary function of
  the program; its type \<open>'cb\<close> and its effect \<open>run\<close> are parameters.
\<close>

type_synonym addr = nat

datatype error = TypeError

record 'cb cell =
  cell_row :: nat
  cell_column :: nat
  cell_x :: real
  cell_y :: real
  cell_width :: real
  cell_height :: real
  cell_textColor :: string
  cell_layer :: int
  cell_fontSize :: real
  cell_color :: "string option"
  cell_image :: "nat option"
  cell_text :: "string option"
  cell_custom :: "'cb option"

record 'cb world =
  reg :: registry
  heap :: "addr \<Rightarrow> 'cb cell option"
  next_addr :: addr

definition world_boot :: "nat \<Rightarrow> nat \<Rightarrow> 'cb world" where
  "world_boot w h = \<lparr>reg = registry_boot w h, heap = Map.empty, next_addr = 0\<rparr>"

text \<open>The constructor of \<^verbatim>\<open>Cell\<close>, and \<^verbatim>\<open>new\<close>, which puts the object at the next free address.\<close>

definition Cell ::
  "nat \<Rightarrow> nat \<Rightarrow> real \<Rightarrow> real \<Rightarrow> real \<Rightarrow> real \<Rightarrow> string \<Rightarrow> int \<Rightarrow> 'cb cell" where
  "Cell row column x y width height textColor lay =
     \<lparr>cell_row = row, cell_column = column, cell_x = x, cell_y = y,
      cell_width = width, cell_height = height, cell_textColor = textColor,
      cell_layer = lay, cell_fontSize = height, cell_color = None,
      cell_image = None, cell_text = None, cell_custom = None\<rparr>"

definition new :: "'cb cell \<Rightarrow> 'cb world \<Rightarrow> addr \<times> 'cb world" where
  "new c w = (next_addr w, w\<lparr>heap := (heap w)(next_addr w \<mapsto> c), next_addr := Suc (next_addr w)\<rparr>)"

text \<open>A program that installs no custom callback has nothing to run.\<close>

definition no_custom :: "unit \<Rightarrow> addr \<Rightarrow> unit world \<Rightarrow> unit world" where
  "no_custom cb a w = w"

text \<open>
  \<^verbatim>\<open>Cell.draw\<close>: apart from painting, it switches layers and calls the custom callback, if any.
  A method is only ever called on an object that exists; on a free address nothing happens.
\<close>

definition Cell_draw :: "('cb \<Rightarrow> addr \<Rightarrow> 'cb world \<Rightarrow> 'cb world) \<Rightarrow> addr \<Rightarrow> 'cb world \<Rightarrow> 'cb world" where
  "Cell_draw run a w =
     (case heap w a of
        None \<Rightarrow> w
      | Some c \<Rightarrow>
          (let saved = layer (reg w);
               w1 = w\<lparr>reg := setLayer (cell_layer c) (reg w)\<rparr>;
               w2 = (case cell_custom c of None \<Rightarrow> w1 | Some cb \<Rightarrow> run cb a w1)
           in w2\<lparr>reg := setLayer saved (reg w2)\<rparr>))"

definition Cell_get_color :: "addr \<Rightarrow> 'cb world \<Rightarrow> string option" where
  "Cell_get_color a w = (case heap w a of None \<Rightarrow> None | Some c \<Rightarrow> cell_color c)"

definition Cell_set_color ::
  "('cb \<Rightarrow> addr \<Rightarrow> 'cb world \<Rightarrow> 'cb world) \<Rightarrow> string option \<Rightarrow> addr \<Rightarrow> 'cb world \<Rightarrow> 'cb world" where
  "Cell_set_color run v a w =
     (case heap w a of
        None \<Rightarrow> w
      | Some c \<Rightarrow> Cell_draw run a (w\<lparr>heap := (heap w)(a \<mapsto> c\<lparr>cell_color := v\<rparr>)\<rparr>))"

definition Cell_set_image ::
  "('cb \<Rightarrow> addr \<Rightarrow> 'cb world \<Rightarrow> 'cb world) \<Rightarrow> nat option \<Rightarrow> addr \<Rightarrow> 'cb world \<Rightarrow> 'cb world" where
  "Cell_set_image run v a w =
     (case heap w a of
        None \<Rightarrow> w
      | Some c \<Rightarrow> Cell_draw run a (w\<lparr>heap := (heap w)(a \<mapsto> c\<lparr>cell_image := v\<rparr>)\<rparr>))"

text \<open>The argument of the setter of \<^verbatim>\<open>text\<close>: \<^verbatim>\<open>null\<close>, a string, or a triple with optional parts.\<close>

datatype text_arg = TextNull | TextString string | TextTuple string "real option" "string option"

definition Cell_set_text ::
  "('cb \<Rightarrow> addr \<Rightarrow> 'cb world \<Rightarrow> 'cb world) \<Rightarrow> text_arg \<Rightarrow> addr \<Rightarrow> 'cb world \<Rightarrow> 'cb world" where
  "Cell_set_text run v a w =
     (case heap w a of
        None \<Rightarrow> w
      | Some c \<Rightarrow>
          (let c1 =
             (case v of
                TextNull \<Rightarrow> c\<lparr>cell_text := None\<rparr>
              | TextString t \<Rightarrow> c\<lparr>cell_text := Some t\<rparr>
              | TextTuple t fs col \<Rightarrow>
                  c\<lparr>cell_text := Some t,
                    cell_fontSize := (case fs of None \<Rightarrow> cell_fontSize c | Some f \<Rightarrow> f),
                    cell_textColor := (case col of None \<Rightarrow> cell_textColor c | Some k \<Rightarrow> k)\<rparr>)
           in Cell_draw run a (w\<lparr>heap := (heap w)(a \<mapsto> c1)\<rparr>)))"

definition Cell_set_custom ::
  "('cb \<Rightarrow> addr \<Rightarrow> 'cb world \<Rightarrow> 'cb world) \<Rightarrow> 'cb option \<Rightarrow> addr \<Rightarrow> 'cb world \<Rightarrow> 'cb world" where
  "Cell_set_custom run v a w =
     (case heap w a of
        None \<Rightarrow> w
      | Some c \<Rightarrow> Cell_draw run a (w\<lparr>heap := (heap w)(a \<mapsto> c\<lparr>cell_custom := v\<rparr>)\<rparr>))"

text \<open>An indexed read \<^verbatim>\<open>xs[i]\<close> of a dense array: \<^verbatim>\<open>undefined\<close> outside its range.\<close>

definition js_index :: "'a list \<Rightarrow> int \<Rightarrow> 'a option" where
  "js_index xs i = (if 0 \<le> i \<and> i < int (length xs) then Some (xs ! nat i) else None)"

text \<open>A counting \<^verbatim>\<open>for\<close> loop whose body yields one array element and changes the state.\<close>

fun for_loop :: "('i \<Rightarrow> 's \<Rightarrow> 'b \<times> 's) \<Rightarrow> 'i list \<Rightarrow> 's \<Rightarrow> 'b list \<times> 's" where
  "for_loop body [] s = ([], s)"
| "for_loop body (i # is) s =
     (case body i s of (b, s1) \<Rightarrow> (case for_loop body is s1 of (bs, s2) \<Rightarrow> (b # bs, s2)))"

record grid =
  grid_rows :: nat
  grid_columns :: nat
  grid_x :: real
  grid_y :: real
  grid_width :: real
  grid_height :: real
  grid_color :: string
  activatable :: bool
  activeCell :: "addr option"
  cells :: "addr list list"
  cellWidth :: real
  cellHeight :: real
  grid_layer :: int

text \<open>\<^verbatim>\<open>Grid.draw\<close>: the painting of the background apart, it draws every cell on the grid's layer.\<close>

definition Grid_draw :: "('cb \<Rightarrow> addr \<Rightarrow> 'cb world \<Rightarrow> 'cb world) \<Rightarrow> grid \<Rightarrow> 'cb world \<Rightarrow> 'cb world" where
  "Grid_draw run g w =
     (let saved = layer (reg w);
          w1 = w\<lparr>reg := setLayer (grid_layer g) (reg w)\<rparr>;
          w2 = fold (Cell_draw run) (concat (cells g)) w1
      in w2\<lparr>reg := setLayer saved (reg w2)\<rparr>)"

text \<open>
  The constructor, with its default arguments filled in by the caller. It ends with
  \<^verbatim>\<open>this.cells[0][0]\<close>, which throws when there is no row 0.
\<close>

definition Grid_new ::
  "('cb \<Rightarrow> addr \<Rightarrow> 'cb world \<Rightarrow> 'cb world) \<Rightarrow> nat \<Rightarrow> nat \<Rightarrow> real \<Rightarrow> real \<Rightarrow> real \<Rightarrow> real \<Rightarrow> string \<Rightarrow>
     'cb world \<Rightarrow> error + (grid \<times> 'cb world)" where
  "Grid_new run rows columns x y width height color w =
     (let cw = (width - real columns - 1) / real columns;
          ch = (height - real rows - 1) / real rows;
          (cs, w1) =
            for_loop (\<lambda>i.
              for_loop (\<lambda>j.
                new (Cell i j
                  (x + real j * (cw + 1) + 1)
                  (y + real i * (ch + 1) + 1)
                  cw ch color (layer (reg w))))
              [0..<columns])
            [0..<rows] w
      in case js_index cs 0 of
           None \<Rightarrow> Inl TypeError
         | Some row0 \<Rightarrow>
             (let g = \<lparr>grid_rows = rows, grid_columns = columns, grid_x = x, grid_y = y,
                       grid_width = width, grid_height = height, grid_color = color,
                       activatable = True, activeCell = js_index row0 0, cells = cs,
                       cellWidth = cw, cellHeight = ch, grid_layer = layer (reg w)\<rparr>
              in Inr (g, Grid_draw run g w1)))"

text \<open>\<^verbatim>\<open>Grid.cell\<close>: \<^verbatim>\<open>this.cells[row][column]\<close>, where indexing \<^verbatim>\<open>undefined\<close> throws.\<close>

definition Grid_cell :: "grid \<Rightarrow> int \<Rightarrow> int \<Rightarrow> error + addr option" where
  "Grid_cell g row column =
     (case js_index (cells g) row of
        None \<Rightarrow> Inl TypeError
      | Some r \<Rightarrow> Inr (js_index r column))"

text \<open>\<^verbatim>\<open>Grid.cellFromPoint\<close>, with the optional chaining \<^verbatim>\<open>?.\<close> that makes it total.\<close>

definition cellFromPoint :: "grid \<Rightarrow> real \<Rightarrow> real \<Rightarrow> addr option" where
  "cellFromPoint g x y =
     (let column = \<lfloor>(x - grid_x g) / (cellWidth g + 1)\<rfloor>;
          row = \<lfloor>(y - grid_y g) / (cellHeight g + 1)\<rfloor>
      in case js_index (cells g) row of None \<Rightarrow> None | Some r \<Rightarrow> js_index r column)"

definition activated :: "pointer_state \<Rightarrow> grid \<Rightarrow> bool \<times> grid" where
  "activated s g =
     (if pressed s then
        (if activatable g then
           (let g1 = g\<lparr>activatable := False\<rparr> in
            case cellFromPoint g1 (pointer_x s) (pointer_y s) of
              Some c \<Rightarrow> (True, g1\<lparr>activeCell := Some c\<rparr>)
            | None \<Rightarrow> (False, g1))
         else (False, g))
      else (False, g\<lparr>activatable := True\<rparr>))"

text \<open>The cell of a grid at a position, read through the store.\<close>

definition cell_at :: "'cb world \<Rightarrow> grid \<Rightarrow> nat \<Rightarrow> nat \<Rightarrow> 'cb cell option" where
  "cell_at w g i j =
     (case Grid_cell g (int i) (int j) of
        Inr (Some a) \<Rightarrow> heap w a
      | _ \<Rightarrow> None)"

subsection \<open>Sprite\<close>

record sprite = hitbox +
  index :: nat
  remainingTime :: real
  frames :: "nat list"
  frameWidth :: real
  frameHeight :: real
  sxs :: "real list"
  sys :: "real list"
  finished :: bool
  framesPerSecond :: real
  loop :: bool
  sprite_rows :: nat
  sprite_columns :: nat

text \<open>
  A quotient of two numbers as JavaScript computes it: division by zero throws nothing and gives
  an infinity, or \<^verbatim>\<open>NaN\<close> for \<open>0 / 0\<close>. The divisors below are counts, so a zero divisor is \<open>+0\<close>.
\<close>

datatype js_number = Finite real | Infinity | MinusInfinity | NaN

definition js_div :: "real \<Rightarrow> real \<Rightarrow> js_number" where
  "js_div a b =
     (if b \<noteq> 0 then Finite (a / b)
      else if 0 < a then Infinity
      else if a < 0 then MinusInfinity
      else NaN)"

text \<open>
  The constructor; \<open>sheet_w\<close> and \<open>sheet_h\<close> are the size of the sprite sheet, \<open>cur\<close> is \<^verbatim>\<open>_layer\<close>.
  It never throws. With at least one row and one column it returns an animated sprite, whose
  fields are finite numbers. With no row or no column the list of frames and the two lists of
  offsets are empty, and \<^verbatim>\<open>width = frameWidth\<close>, \<^verbatim>\<open>height = frameHeight\<close> are the quotients by the
  counts of columns and rows, of which one at least is not finite: that object is \<open>Frameless\<close>,
  with its width, its height and its layer; its other fields are those of every new sprite.
\<close>

datatype sprite_object = Animated sprite | Frameless js_number js_number int

definition Sprite :: "int \<Rightarrow> real \<Rightarrow> real \<Rightarrow> nat \<Rightarrow> nat \<Rightarrow> sprite_object" where
  "Sprite cur sheet_w sheet_h rows columns =
     (if rows = 0 \<or> columns = 0 then
        Frameless (js_div sheet_w (real columns)) (js_div sheet_h (real rows)) cur
      else
        (let fw = sheet_w / real columns;
             fh = sheet_h / real rows
         in Animated
           \<lparr>hb_x = 0, hb_y = 0, hb_width = fw, hb_height = fh, hb_layer = cur, clickable = True,
            index = 0,
            remainingTime = 1000 / 12,
            frames = [0..<rows * columns],
            frameWidth = fw,
            frameHeight = fh,
            sxs = map (\<lambda>i. fw * real (i mod columns)) [0..<rows * columns],
            sys = map (\<lambda>i. fh * real (i div columns)) [0..<rows * columns],
            finished = False,
            framesPerSecond = 12,
            loop = True,
            sprite_rows = rows,
            sprite_columns = columns\<rparr>))"

fun animated :: "sprite_object \<Rightarrow> sprite option" where
  "animated (Animated s) = Some s"
| "animated (Frameless w h l) = None"

definition set_frames :: "nat list \<Rightarrow> sprite \<Rightarrow> sprite" where
  "set_frames v s = (if v \<noteq> frames s then s\<lparr>index := 0, frames := v\<rparr> else s\<lparr>frames := v\<rparr>)"

definition set_framesPerSecond :: "real \<Rightarrow> sprite \<Rightarrow> sprite" where
  "set_framesPerSecond v s = s\<lparr>framesPerSecond := v, remainingTime := 1000 / v\<rparr>"

definition set_loop :: "bool \<Rightarrow> sprite \<Rightarrow> sprite" where
  "set_loop v s = s\<lparr>loop := v\<rparr>"

text \<open>
  \<^verbatim>\<open>Sprite.update\<close>, on the fields of the sprite; \<open>dt\<close> is the global \<^verbatim>\<open>DT\<close>, the time between the
  last two display frames. The comparison \<^verbatim>\<open>index >= length - 1\<close> is made on integers: the right
  side is \<open>-1\<close> for an empty list of frames.
\<close>

definition update :: "real \<Rightarrow> sprite \<Rightarrow> sprite" where
  "update dt s =
     (let s1 = s\<lparr>remainingTime := remainingTime s - dt\<rparr> in
      if remainingTime s1 < 0 then
        (let s2 =
           (if int (index s1) \<ge> int (length (frames s1)) - 1 then
              (if loop s1 then s1\<lparr>index := 0\<rparr> else s1\<lparr>finished := True\<rparr>)
            else s1\<lparr>index := index s1 + 1\<rparr>)
         in s2\<lparr>remainingTime := remainingTime s2 + 1000 / framesPerSecond s2\<rparr>)
      else s1)"

text \<open>The call of \<^verbatim>\<open>draw\<close> that ends \<^verbatim>\<open>update\<close> paints and leaves the registry as \<open>draw_on\<close> does.\<close>

definition Sprite_update :: "real \<Rightarrow> sprite \<times> registry \<Rightarrow> sprite \<times> registry" where
  "Sprite_update dt p = (let s = update dt (fst p) in (s, draw_on (hb_layer s) (snd p)))"

fun updates :: "real list \<Rightarrow> sprite \<Rightarrow> sprite" where
  "updates [] s = s"
| "updates (dt # dts) s = updates dts (update dt s)"

text \<open>The duration of one frame of the animation, in milliseconds.\<close>

definition frame_duration :: "sprite \<Rightarrow> real" where
  "frame_duration s = 1000 / framesPerSecond s"

subsection \<open>Vector\<close>

text \<open>
  \<^verbatim>\<open>Math.hypot\<close> is the Euclidean norm. \<^verbatim>\<open>Math.atan2(y, x)\<close> is the principal argument of \<open>x + iy\<close>,
  except on the half-line \<open>y = 0\<close>, \<open>x \<le> 0\<close>, where the result depends on the signs of the zeros:
  for \<open>x < 0\<close> it is \<open>\<pi>\<close> when \<open>y\<close> is \<open>+0\<close> and \<open>-\<pi>\<close> when \<open>y\<close> is \<open>-0\<close>, and at the origin it is \<open>\<plusminus>0\<close> when \<open>x\<close> is
  \<open>+0\<close> and \<open>\<plusminus>\<pi>\<close> when \<open>x\<close> is \<open>-0\<close>. A real number carries no such sign, so \<open>atan2 y x\<close> is the set of the
  values the call can return for arguments equal to \<open>y\<close> and \<open>x\<close>: one value off the half-line, two
  or three on it. The getter \<^verbatim>\<open>angle\<close> inherits this, and so does the setter of \<^verbatim>\<open>length\<close>, which reads
  the angle: it yields the set of vectors the assignment can leave.
\<close>

record vector =
  vec_x :: real
  vec_y :: real



definition fromPolar :: "real \<Rightarrow> real \<Rightarrow> vector" where
  "fromPolar len ang = \<lparr>vec_x = cos ang * len, vec_y = sin ang * len\<rparr>"





subsection \<open>A test scene\<close>

text \<open>
  \<^verbatim>\<open>new Grid(2, 2, 0, 0, 10, 10)\<close> in a fresh page of 800 by 600 pixels, in a program without custom
  callbacks, and then \<^verbatim>\<open>grid.cell(0, 0).color = "red"\<close>.
\<close>

definition grid_2x2 :: "error + grid \<times> unit world" where
  "grid_2x2 = Grid_new no_custom 2 2 0 0 10 10 ''black'' (world_boot 800 600)"

definition test_grid :: grid where
  "test_grid = fst (projr grid_2x2)"

definition test_world :: "unit world" where
  "test_world = snd (projr grid_2x2)"

definition red_world :: "unit world" where
  "red_world =
     (case Grid_cell test_grid 0 0 of
        Inr (Some a) \<Rightarrow> Cell_set_color no_custom (Some ''red'') a test_world
      | _ \<Rightarrow> test_world)"


text \<open>
  Two sprites that do not loop and run at 10 frames a second (a frame lasts 100 ms): one with a
  single frame, one with two frames.
\<close>

definition still_sprite :: sprite where
  "still_sprite = set_framesPerSecond 10 (set_loop False (the (animated (Sprite 0 64 64 1 1))))"

definition walk_sprite :: sprite where
  "walk_sprite = set_framesPerSecond 10 (set_loop False (the (animated (Sprite 0 128 64 1 2))))"

section \<open>Properties\<close>

subsection \<open>Hitbox\<close>

text \<open>
  C10. For every hitbox and every point, \<open>contains\<close> holds exactly when the point lies in the
  half-open rectangle: \<open>x \<le> px < x + width\<close> and \<open>y \<le> py < y + height\<close>. The left and top edges
  belong to the box, the right and bottom edges do not.
\<close>

theorem contains_half_open:
  "contains h px py =
     (hb_x h \<le> px \<and> px < hb_x h + hb_width h \<and> hb_y h \<le> py \<and> py < hb_y h + hb_height h)
   \<and> \<not> contains h (hb_x h + hb_width h) py'
   \<and> \<not> contains h px' (hb_y h + hb_height h)"
  by (auto simp: contains_def)

subsection \<open>Keyboard\<close>

lemma keydown_entry:
  "keys (keydown code s) c =
     (if c = code \<and> keys s code \<noteq> Some (Bool False) then Some (Bool True) else keys s c)"
  by (simp add: keydown_def)

lemma reset_entry:
  "keys (key_set_false code s) c = (if c = code then Some (Bool False) else keys s c)"
  by (simp add: key_set_false_def)

lemma keyup_entry_self: "keys (keyup code s) code = Some Null"
  by (simp add: keyup_def Let_def)

lemma keyup_entry_other:
  "c \<noteq> code \<Longrightarrow> coupled c \<noteq> Some code \<Longrightarrow> keys (keyup c s) code = keys s code"
  by (auto simp add: keyup_def Let_def coupled_def split: if_splits)

text \<open>While the key is held, its entry keeps its value or drops to \<open>false\<close>; it never rises.\<close>

lemma held_step:
  assumes "while_held code e" and "keys s code = Some (Bool b)"
  shows "keys (key_step e s) code = Some (Bool b) \<or> keys (key_step e s) code = Some (Bool False)"
proof (cases e)
  case (KeyDown c)
  show ?thesis
  proof (cases b)
    case True
    with assms(2) KeyDown show ?thesis by (simp add: keydown_entry)
  next
    case False
    with assms(2) KeyDown show ?thesis by (auto simp add: keydown_entry)
  qed
next
  case (KeyUp c)
  with assms show ?thesis by (simp add: keyup_entry_other)
next
  case Blur
  with assms show ?thesis by simp
next
  case (Reset c)
  with assms(2) show ?thesis by (simp add: reset_entry)
qed

lemma held_no_rise:
  assumes "\<forall>e\<in>set evs. while_held code e" and "keys s code = Some (Bool b)"
  shows "rising b (query_trace code (evs @ [KeyUp code]) s) = 0"
  using assms
proof (induction evs arbitrary: s b)
  case Nil
  then show ?case by (simp add: key_get_def keyup_entry_self)
next
  case (Cons e evs)
  from Cons.prems have held: "\<forall>e\<in>set evs. while_held code e" and e: "while_held code e"
    by simp_all
  from held_step [OF e Cons.prems(2)]
  consider "keys (key_step e s) code = Some (Bool b)" | "keys (key_step e s) code = Some (Bool False)"
    by blast
  then show ?case
  proof cases
    case 1
    from Cons.IH [OF held 1] 1 show ?thesis by (simp add: key_get_def)
  next
    case 2
    from Cons.IH [OF held 2] 2 show ?thesis by (simp add: key_get_def)
  qed
qed

lemma key_run_append: "key_run (xs @ ys) s = key_run ys (key_run xs s)"
  by (induction xs arbitrary: s) auto

text \<open>
  C1, as the code has it. For every key code: \<^verbatim>\<open>keydown\<close> stores \<open>true\<close> unless the entry is exactly
  \<open>false\<close>, and \<^verbatim>\<open>keyup\<close> stores \<open>null\<close>, which differs from the entry of a key that was never pressed.
  Take one physical press of the key: the first \<^verbatim>\<open>keydown\<close>, then any number of repeated
  \<^verbatim>\<open>keydown\<close>s, resets by the consumer and events of other keys, but no release of the coupled key
  (the other shift, the other enter) and no loss of focus, then the \<^verbatim>\<open>keyup\<close>. Over it the query of
  the key goes from false to true exactly once when the press starts with the entry \<^verbatim>\<open>undefined\<close> or
  \<open>null\<close>, and not at all when it starts with the entry \<open>false\<close> or \<open>true\<close>; the entry ends as \<open>null\<close>.
\<close>

theorem key_press_once:
  assumes held: "\<forall>e\<in>set evs. while_held code e"
  shows "keys (keydown code t) code =
           (if keys t code = Some (Bool False) then Some (Bool False) else Some (Bool True))
       \<and> keys (keyup code t) code = Some Null
       \<and> rising (key_get code s) (query_trace code (KeyDown code # evs @ [KeyUp code]) s) =
           (if keys s code = None \<or> keys s code = Some Null then 1 else 0)
       \<and> keys (key_run (KeyDown code # evs @ [KeyUp code]) s) code = Some Null
       \<and> keys (keyup code t) code \<noteq> keys keyboard_init code"
proof -
  have count: "rising (key_get code s) (query_trace code (KeyDown code # evs @ [KeyUp code]) s) =
           (if keys s code = None \<or> keys s code = Some Null then 1 else 0)"
  proof (cases "keys s code = None \<or> keys s code = Some Null")
    case True
    then have d: "keys (keydown code s) code = Some (Bool True)"
      by (auto simp: keydown_entry)
    from True have q: "\<not> key_get code s" by (auto simp: key_get_def)
    have k: "key_get code (keydown code s)" using d by (simp add: key_get_def)
    from held_no_rise [OF held d] q k True show ?thesis by simp
  next
    case False
    then obtain b where b: "keys s code = Some (Bool b)"
      by (cases "keys s code") (auto intro: tri.exhaust)
    from held have "\<forall>e\<in>set (KeyDown code # evs). while_held code e" by simp
    from held_no_rise [OF this b]
    have "rising b (query_trace code (KeyDown code # evs @ [KeyUp code]) s) = 0" by simp
    moreover from b have "key_get code s = b" by (simp add: key_get_def)
    ultimately show ?thesis using False by simp
  qed
  have last: "keys (key_run (KeyDown code # evs @ [KeyUp code]) s) code = Some Null"
    by (simp add: key_run_append keyup_entry_self)
  have down: "keys (keydown code t) code =
           (if keys t code = Some (Bool False) then Some (Bool False) else Some (Bool True))"
    by (simp add: keydown_entry)
  have fresh: "keys (keyup code t) code \<noteq> keys keyboard_init code"
    by (simp add: keyup_entry_self keyboard_init_def)
  from down keyup_entry_self [of code t] count last fresh show ?thesis by (intro conjI)
qed

text \<open>
  A press of the space bar with two repeats, a reset by the consumer in between, and another key
  pressed and released meanwhile: the query reads true, true, false, false, false, false, false.
\<close>

theorem key_press_once_witness:
  "keys keyboard_init ''Space'' = None
   \<and> list_all (while_held ''Space'')
        [KeyDown ''Space'', Reset ''Space'', KeyDown ''Space'', KeyDown ''KeyA'', KeyUp ''KeyA'']
   \<and> query_trace ''Space''
        (KeyDown ''Space'' #
           [KeyDown ''Space'', Reset ''Space'', KeyDown ''Space'', KeyDown ''KeyA'', KeyUp ''KeyA'']
           @ [KeyUp ''Space''])
        keyboard_init
      = [True, True, False, False, False, False, False]
   \<and> rising (key_get ''Space'' keyboard_init)
        (query_trace ''Space''
          (KeyDown ''Space'' #
             [KeyDown ''Space'', Reset ''Space'', KeyDown ''Space'', KeyDown ''KeyA'', KeyUp ''KeyA'']
             @ [KeyUp ''Space''])
          keyboard_init) = 1"
proof -
  have up: "keys keyboard_init ''Space'' = None"
    by (simp add: keyboard_init_def)
  have held: "\<forall>e\<in>set [KeyDown ''Space'', Reset ''Space'', KeyDown ''Space'', KeyDown ''KeyA'', KeyUp ''KeyA''].
        while_held ''Space'' e"
    by (simp add: coupled_def)
  have trace: "query_trace ''Space''
        (KeyDown ''Space'' #
           [KeyDown ''Space'', Reset ''Space'', KeyDown ''Space'', KeyDown ''KeyA'', KeyUp ''KeyA'']
           @ [KeyUp ''Space''])
        keyboard_init
      = [True, True, False, False, False, False, False]"
    by (simp add: keyboard_init_def keydown_def keyup_def key_set_false_def key_get_def Let_def)
  from key_press_once [OF held, of _ keyboard_init] up
  have "rising (key_get ''Space'' keyboard_init)
        (query_trace ''Space''
          (KeyDown ''Space'' #
             [KeyDown ''Space'', Reset ''Space'', KeyDown ''Space'', KeyDown ''KeyA'', KeyUp ''KeyA'']
             @ [KeyUp ''Space''])
          keyboard_init) = 1"
    by simp
  with up held trace show ?thesis
    by (simp add: list_all_iff)
qed

text \<open>
  The claim C1 as stated has exactly one rise of the query in every physical press. Three presses
  with another count: the space bar pressed after the consumer wrote \<open>false\<close> while it was up (the
  guard of \<^verbatim>\<open>keydown\<close> then keeps the entry \<open>false\<close>: no rise); Enter held while NumpadEnter is pressed
  and released, which also clears the entry of Enter, and then repeating (two rises); the space
  bar held while the window loses focus and regains it, and then repeating (two rises).
\<close>

theorem key_press_once_counterexample:
  "query_trace ''Space'' [KeyDown ''Space'', KeyDown ''Space'', KeyUp ''Space'']
       (key_set_false ''Space'' keyboard_init) = [False, False, False]
   \<and> rising (key_get ''Space'' (key_set_false ''Space'' keyboard_init))
       (query_trace ''Space'' [KeyDown ''Space'', KeyDown ''Space'', KeyUp ''Space'']
          (key_set_false ''Space'' keyboard_init)) = 0
   \<and> query_trace ''Enter''
       [KeyDown ''Enter'', KeyDown ''NumpadEnter'', KeyUp ''NumpadEnter'', KeyDown ''Enter'',
        KeyUp ''Enter''] keyboard_init = [True, True, False, True, False]
   \<and> rising (key_get ''Enter'' keyboard_init)
       (query_trace ''Enter''
          [KeyDown ''Enter'', KeyDown ''NumpadEnter'', KeyUp ''NumpadEnter'', KeyDown ''Enter'',
           KeyUp ''Enter''] keyboard_init) = 2
   \<and> query_trace ''Space'' [KeyDown ''Space'', Blur, KeyDown ''Space'', KeyUp ''Space'']
       keyboard_init = [True, False, True, False]
   \<and> rising (key_get ''Space'' keyboard_init)
       (query_trace ''Space'' [KeyDown ''Space'', Blur, KeyDown ''Space'', KeyUp ''Space'']
          keyboard_init) = 2"
proof -
  note defs = keyboard_init_def keydown_def keyup_def key_set_false_def key_get_def blur_def Let_def
  have 1: "query_trace ''Space'' [KeyDown ''Space'', KeyDown ''Space'', KeyUp ''Space'']
       (key_set_false ''Space'' keyboard_init) = [False, False, False]"
    by (simp add: defs)
  have 2: "query_trace ''Enter''
       [KeyDown ''Enter'', KeyDown ''NumpadEnter'', KeyUp ''NumpadEnter'', KeyDown ''Enter'',
        KeyUp ''Enter''] keyboard_init = [True, True, False, True, False]"
    by (simp add: defs)
  have 3: "query_trace ''Space'' [KeyDown ''Space'', Blur, KeyDown ''Space'', KeyUp ''Space'']
       keyboard_init = [True, False, True, False]"
    by (simp add: defs)
  have q: "key_get ''Space'' (key_set_false ''Space'' keyboard_init) = False"
    "key_get ''Enter'' keyboard_init = False" "key_get ''Space'' keyboard_init = False"
    by (simp_all add: defs)
  show ?thesis unfolding 1 2 3 q by simp
qed

subsection \<open>Hitbox: one click for each press\<close>

lemma contains_clickable [simp]: "contains (h\<lparr>clickable := b\<rparr>) x y = contains h x y"
  by (simp add: contains_def)

lemma clicked_armed:
  "pressed s \<Longrightarrow> clickable h \<Longrightarrow>
     clicked s h = (contains h (pointer_x s) (pointer_y s), h\<lparr>clickable := False\<rparr>)"
  by (simp add: clicked_def Let_def)

lemma clicked_spent: "pressed s \<Longrightarrow> \<not> clickable h \<Longrightarrow> clicked s h = (False, h)"
  by (simp add: clicked_def)

lemma clicked_released: "\<not> pressed s \<Longrightarrow> clicked s h = (False, h\<lparr>clickable := True\<rparr>)"
  by (simp add: clicked_def)

lemma queries_spent:
  "\<forall>t\<in>set ss. pressed t \<Longrightarrow> \<not> clickable h \<Longrightarrow>
     queries ss h = (replicate (length ss) False, h)"
  by (induction ss) (simp_all add: clicked_spent)

lemma queries_press:
  assumes "pressed s" and "\<forall>t\<in>set ss. pressed t"
  shows "fst (queries (s # ss) h) =
           (clickable h \<and> contains h (pointer_x s) (pointer_y s)) # replicate (length ss) False"
proof (cases "clickable h")
  case True
  with assms show ?thesis by (simp add: clicked_armed queries_spent)
next
  case False
  with assms show ?thesis by (simp add: clicked_spent queries_spent)
qed

lemma count_replicate_False: "length (filter id (b # replicate n False)) \<le> 1"
  by (induction n) auto

text \<open>
  C2, as the code has it. During one press (every reading is made while a touch or a button is
  down) the first reading of \<open>clicked\<close> tells whether the pointer is inside the box when the hitbox
  is armed, and is false when it is not; every later reading is false, so at most one reading is
  true. A hitbox is armed when it is made, and a reading leaves it armed exactly when it saw no
  touch and no button down. So for an armed hitbox and presses inside it, press, read, read,
  release, read, press, read gives true, false, false, true.
\<close>

theorem clicked_once_per_press:
  assumes "pressed s" and "\<forall>t\<in>set ss. pressed t"
      and "pressed p" and "\<not> pressed r" and "pressed p'"
      and "clickable h0"
      and "contains h0 (pointer_x p) (pointer_y p)" and "contains h0 (pointer_x p') (pointer_y p')"
  shows "fst (queries (s # ss) h) =
           (clickable h \<and> contains h (pointer_x s) (pointer_y s)) # replicate (length ss) False
       \<and> length (filter id (fst (queries (s # ss) h))) \<le> 1
       \<and> clickable (snd (clicked t h)) = (\<not> pressed t)
       \<and> fst (queries [p, p, r, p'] h0) = [True, False, False, True]"
proof -
  have a: "fst (queries (s # ss) h) =
           (clickable h \<and> contains h (pointer_x s) (pointer_y s)) # replicate (length ss) False"
    by (rule queries_press [OF assms(1,2)])
  have b: "length (filter id (fst (queries (s # ss) h))) \<le> 1"
    unfolding a by (rule count_replicate_False)
  have c: "clickable (snd (clicked t h)) = (\<not> pressed t)"
    by (simp add: clicked_def Let_def)
  have d: "fst (queries [p, p, r, p'] h0) = [True, False, False, True]"
    using assms(3-8) by (simp add: clicked_armed clicked_spent clicked_released)
  from a b c d show ?thesis by blast
qed

text \<open>
  With the mouse: the pointer at (5, 5), a box of size 10 at the origin, button 0 pressed,
  released and pressed again.
\<close>

theorem clicked_once_per_press_witness:
  "pressed (mousedown 0 (mousemove 5 5 0 0 pointer_init))
   \<and> \<not> pressed (mouseup 0 (mousedown 0 (mousemove 5 5 0 0 pointer_init)))
   \<and> pressed (mousedown 0 (mouseup 0 (mousedown 0 (mousemove 5 5 0 0 pointer_init))))
   \<and> clickable (Hitbox 0 0 0 10 10)
   \<and> fst (queries
        [mousedown 0 (mousemove 5 5 0 0 pointer_init),
         mousedown 0 (mousemove 5 5 0 0 pointer_init)] (Hitbox 0 0 0 10 10)) = [True, False]
   \<and> fst (queries
        [mousedown 0 (mousemove 5 5 0 0 pointer_init),
         mousedown 0 (mousemove 5 5 0 0 pointer_init),
         mouseup 0 (mousedown 0 (mousemove 5 5 0 0 pointer_init)),
         mousedown 0 (mouseup 0 (mousedown 0 (mousemove 5 5 0 0 pointer_init)))]
        (Hitbox 0 0 0 10 10)) = [True, False, False, True]"
proof -
  define h0 where "h0 = Hitbox 0 0 0 10 10"
  define p where "p = mousedown 0 (mousemove 5 5 0 0 pointer_init)"
  define r where "r = mouseup 0 p"
  define p' where "p' = mousedown 0 r"
  note defs = pressed_def mouseup_def mousedown_def mousemove_def pointer_init_def
    array_get_def array_set_def touched_def
  have 1: "pressed p" by (simp add: p_def defs)
  have 2: "\<not> pressed r" by (simp add: r_def p_def defs)
  have 3: "pressed p'" by (simp add: p'_def r_def p_def defs)
  have 4: "clickable h0" by (simp add: h0_def Hitbox_def)
  have 5: "contains h0 (pointer_x p) (pointer_y p)"
    by (simp add: h0_def Hitbox_def contains_def pointer_x_def pointer_y_def p_def defs)
  have 6: "contains h0 (pointer_x p') (pointer_y p')"
    by (simp add: h0_def Hitbox_def contains_def pointer_x_def pointer_y_def p'_def r_def p_def defs)
  have 7: "\<forall>t\<in>set [p]. pressed t" using 1 by simp
  from clicked_once_per_press [OF 1 7 1 2 3 4 5 6, of h0]
  have "fst (queries [p, p] h0) = [True, False]"
    and "fst (queries [p, p, r, p'] h0) = [True, False, False, True]"
    using 4 5 by simp_all
  with 1 2 3 4 show ?thesis
    unfolding h0_def p_def r_def p'_def by blast
qed

text \<open>
  The claim C2 as stated has the first reading of every press tell whether the pointer is inside
  the box. Here the button is pressed inside the box and \<open>clicked\<close> is read, the button is released
  and pressed again with no reading in between: the first reading of the second press is false,
  although the pointer is inside the box.
\<close>

theorem clicked_first_reading_counterexample:
  "pressed (mousedown 0 (mousemove 5 5 0 0 pointer_init))
   \<and> \<not> pressed (mouseup 0 (mousedown 0 (mousemove 5 5 0 0 pointer_init)))
   \<and> pressed (mousedown 0 (mouseup 0 (mousedown 0 (mousemove 5 5 0 0 pointer_init))))
   \<and> contains (Hitbox 0 0 0 10 10)
        (pointer_x (mousedown 0 (mouseup 0 (mousedown 0 (mousemove 5 5 0 0 pointer_init)))))
        (pointer_y (mousedown 0 (mouseup 0 (mousedown 0 (mousemove 5 5 0 0 pointer_init)))))
   \<and> fst (queries
        [mousedown 0 (mousemove 5 5 0 0 pointer_init),
         mousedown 0 (mouseup 0 (mousedown 0 (mousemove 5 5 0 0 pointer_init)))]
        (Hitbox 0 0 0 10 10)) = [True, False]"
proof -
  define h0 where "h0 = Hitbox 0 0 0 10 10"
  define p where "p = mousedown 0 (mousemove 5 5 0 0 pointer_init)"
  define r where "r = mouseup 0 p"
  define p' where "p' = mousedown 0 r"
  note defs = pressed_def mouseup_def mousedown_def mousemove_def pointer_init_def
    array_get_def array_set_def touched_def
  have 1: "pressed p" by (simp add: p_def defs)
  have 2: "\<not> pressed r" by (simp add: r_def p_def defs)
  have 3: "pressed p'" by (simp add: p'_def r_def p_def defs)
  have 4: "clickable h0" by (simp add: h0_def Hitbox_def)
  have 5: "contains h0 (pointer_x p) (pointer_y p)"
    by (simp add: h0_def Hitbox_def contains_def pointer_x_def pointer_y_def p_def defs)
  have 6: "contains h0 (pointer_x p') (pointer_y p')"
    by (simp add: h0_def Hitbox_def contains_def pointer_x_def pointer_y_def p'_def r_def p_def defs)
  have 7: "fst (queries [p, p'] h0) = [True, False]"
    using 1 3 4 5 by (simp add: clicked_armed clicked_spent)
  from 1 2 3 6 7 show ?thesis
    unfolding h0_def p_def r_def p'_def by blast
qed

subsection \<open>Layer registry\<close>

lemma setLayer_W [simp]: "W (setLayer l s) = W s"
  by (simp add: setLayer_def Let_def)

lemma setLayer_H [simp]: "H (setLayer l s) = H s"
  by (simp add: setLayer_def Let_def)

lemma setLayer_layer [simp]: "layer (setLayer l s) = l"
  by (simp add: setLayer_def Let_def)

lemma setLayer_canvasLayers:
  "canvasLayers (setLayer l s) k =
     (if k = l \<and> ctxs s l = None
      then Some \<lparr>cl_width = W s, cl_height = H s, zIndex = l\<rparr>
      else canvasLayers s k)"
  by (simp add: setLayer_def Let_def)

lemma setLayer_ctxs:
  "ctxs (setLayer l s) k = (if k = l \<and> ctxs s l = None then Some (Context2d l) else ctxs s k)"
  by (simp add: setLayer_def Let_def)

lemma setLayer_ctx: "ctx (setLayer l s) = ctxs (setLayer l s) l"
  by (simp add: setLayer_def Let_def)

lemma setLayer_children:
  "children (setLayer l s) = (if ctxs s l = None then children s @ [l] else children s)"
  by (simp add: setLayer_def Let_def)

lemma same_size_setLayer: "same_size s \<Longrightarrow> same_size (setLayer l s)"
  by (auto simp: same_size_def setLayer_canvasLayers split: if_splits)

lemma resetCanvas_W [simp]: "W (resetCanvas w h s) = w"
  by (simp add: resetCanvas_def)

lemma resetCanvas_H [simp]: "H (resetCanvas w h s) = h"
  by (simp add: resetCanvas_def)

lemma same_size_resetCanvas: "same_size (resetCanvas w h s)"
  unfolding resetCanvas_def
  by (rule same_size_setLayer) (auto simp: same_size_def)

lemma same_size_boot: "same_size (registry_boot w h)"
  by (simp add: registry_boot_def same_size_resetCanvas)

lemma same_size_step: "same_size s \<Longrightarrow> same_size (registry_step operation s)"
  by (cases operation) (simp_all add: same_size_setLayer same_size_resetCanvas)

lemma same_size_run: "same_size s \<Longrightarrow> same_size (registry_run ops s)"
  by (induction ops arbitrary: s) (simp_all add: same_size_step)

lemma registry_ok_setLayer:
  assumes "registry_ok s"
  shows "registry_ok (setLayer l s)"
proof -
  from assms have ss: "same_size s"
    and dom: "\<And>k. (ctxs s k = None) = (canvasLayers s k = None)"
    and cx: "\<And>k c. ctxs s k = Some c \<Longrightarrow> c = Context2d k"
    and zi: "\<And>k c. canvasLayers s k = Some c \<Longrightarrow> zIndex c = k"
    by (auto simp: registry_ok_def)
  have "same_size (setLayer l s)" by (rule same_size_setLayer [OF ss])
  moreover have "\<forall>k. (ctxs (setLayer l s) k = None) = (canvasLayers (setLayer l s) k = None)"
    by (simp add: setLayer_ctxs setLayer_canvasLayers dom)
  moreover have "\<forall>k c. ctxs (setLayer l s) k = Some c \<longrightarrow> c = Context2d k"
    by (auto simp: setLayer_ctxs dest: cx split: if_splits)
  moreover have "\<forall>k c. canvasLayers (setLayer l s) k = Some c \<longrightarrow> zIndex c = k"
    by (auto simp: setLayer_canvasLayers dest: zi split: if_splits)
  ultimately show ?thesis by (simp add: registry_ok_def)
qed

lemma registry_ok_resetCanvas:
  assumes "registry_ok s"
  shows "registry_ok (resetCanvas w h s)"
proof -
  let ?t = "s\<lparr>canvas_display := [], W := w, H := h,
              canvasLayers := (\<lambda>k. map_option (\<lambda>c. c\<lparr>cl_width := w, cl_height := h\<rparr>) (canvasLayers s k))\<rparr>"
  from assms have "registry_ok ?t"
    by (auto simp: registry_ok_def same_size_def)
  then show ?thesis
    unfolding resetCanvas_def by (rule registry_ok_setLayer)
qed

lemma registry_ok_boot: "registry_ok (registry_boot w h)"
  unfolding registry_boot_def
  by (rule registry_ok_resetCanvas) (simp add: registry_ok_def same_size_def)

lemma registry_ok_step: "registry_ok s \<Longrightarrow> registry_ok (registry_step operation s)"
  by (cases operation) (simp_all add: registry_ok_setLayer registry_ok_resetCanvas)

text \<open>Every registry reached from a loaded page is well formed.\<close>

lemma registry_ok_run: "registry_ok s \<Longrightarrow> registry_ok (registry_run ops s)"
  by (induction ops arbitrary: s) (simp_all add: registry_ok_step)

lemma registry_ok_reachable: "registry_ok (registry_run ops (registry_boot w h))"
  by (rule registry_ok_run [OF registry_ok_boot])

text \<open>
  C6. Every surface of the registry has the size of the viewport, \<open>W\<close> by \<open>H\<close>: this holds when the
  script has loaded, \<open>setLayer\<close> keeps it, \<open>resetCanvas\<close> establishes it for the new size, so it
  holds after every sequence of the two operations, and then any two surfaces have equal sizes.
\<close>

theorem layers_same_size:
  "same_size (registry_boot w h)
   \<and> (same_size s \<longrightarrow> same_size (setLayer l s))
   \<and> same_size (resetCanvas w' h' s) \<and> W (resetCanvas w' h' s) = w' \<and> H (resetCanvas w' h' s) = h'
   \<and> same_size (registry_run ops (registry_boot w h))
   \<and> (same_size s \<longrightarrow> canvasLayers s j = Some a \<longrightarrow> canvasLayers s k = Some b \<longrightarrow>
        cl_width a = W s \<and> cl_height a = H s \<and> cl_width a = cl_width b \<and> cl_height a = cl_height b)"
proof -
  have pair: "same_size s \<longrightarrow> canvasLayers s j = Some a \<longrightarrow> canvasLayers s k = Some b \<longrightarrow>
        cl_width a = W s \<and> cl_height a = H s \<and> cl_width a = cl_width b \<and> cl_height a = cl_height b"
    by (simp add: same_size_def)
  have run: "same_size (registry_run ops (registry_boot w h))"
    by (rule same_size_run [OF same_size_boot])
  have keep: "same_size s \<longrightarrow> same_size (setLayer l s)"
    by (simp add: same_size_setLayer)
  have reset: "same_size (resetCanvas w' h' s)" "W (resetCanvas w' h' s) = w'" "H (resetCanvas w' h' s) = h'"
    by (simp_all add: same_size_resetCanvas)
  from same_size_boot [of w h] keep reset run pair show ?thesis
    by (intro conjI)
qed

text \<open>
  Layers 0 and 2 made at 800 by 600, the viewport reset to 300 by 200, then layer 1 made: the
  three surfaces are 300 by 200.
\<close>

theorem layers_same_size_witness:
  "same_size (registry_run [SetLayer 2, ResetCanvas 300 200, SetLayer 1] (registry_boot 800 600))
   \<and> canvasLayers (registry_run [SetLayer 2, ResetCanvas 300 200, SetLayer 1] (registry_boot 800 600)) 2
       = Some \<lparr>cl_width = 300, cl_height = 200, zIndex = 2\<rparr>
   \<and> canvasLayers (registry_run [SetLayer 2, ResetCanvas 300 200, SetLayer 1] (registry_boot 800 600)) 1
       = Some \<lparr>cl_width = 300, cl_height = 200, zIndex = 1\<rparr>
   \<and> canvasLayers (registry_run [SetLayer 2, ResetCanvas 300 200, SetLayer 1] (registry_boot 800 600)) 0
       = Some \<lparr>cl_width = 300, cl_height = 200, zIndex = 0\<rparr>
   \<and> W (registry_run [SetLayer 2, ResetCanvas 300 200, SetLayer 1] (registry_boot 800 600)) = 300
   \<and> H (registry_run [SetLayer 2, ResetCanvas 300 200, SetLayer 1] (registry_boot 800 600)) = 200"
proof -
  let ?s = "registry_run [SetLayer 2, ResetCanvas 300 200, SetLayer 1] (registry_boot 800 600)"
  let ?a = "\<lparr>cl_width = 300, cl_height = 200, zIndex = 2\<rparr>"
  let ?b = "\<lparr>cl_width = 300, cl_height = 200, zIndex = 1\<rparr>"
  have 2: "canvasLayers ?s 2 = Some ?a"
    by (simp add: registry_boot_def resetCanvas_def setLayer_def Let_def)
  have 1: "canvasLayers ?s 1 = Some ?b"
    by (simp add: registry_boot_def resetCanvas_def setLayer_def Let_def)
  have 0: "canvasLayers ?s 0 = Some \<lparr>cl_width = 300, cl_height = 200, zIndex = 0\<rparr>"
    by (simp add: registry_boot_def resetCanvas_def setLayer_def Let_def)
  note T = layers_same_size [where w = 800 and h = 600
      and ops = "[SetLayer 2, ResetCanvas 300 200, SetLayer 1]"
      and s = ?s and j = 2 and a = ?a and k = 1 and b = ?b]
  from T have ss: "same_size ?s" by blast
  from T ss 2 1 have "cl_width ?a = W ?s \<and> cl_height ?a = H ?s" by blast
  then have "W ?s = 300" "H ?s = 200" by simp_all
  with ss 0 1 2 show ?thesis by blast
qed

text \<open>
  C5, as the code has it. In a well-formed registry, \<open>setLayer l\<close> leaves a surface of the size of
  the viewport for \<open>l\<close>, makes \<open>l\<close> the active layer and the context of its surface the target of
  drawing. On first use the surface is appended to the container with \<^verbatim>\<open>z-index\<close> \<open>l\<close>: it lies
  above exactly the existing surfaces of the layers with a smaller number, whenever they were
  made. On later use no surface changes.
\<close>

theorem setLayer_contract:
  assumes "registry_ok s"
  shows "canvasLayers (setLayer l s) l = Some \<lparr>cl_width = W s, cl_height = H s, zIndex = l\<rparr>
       \<and> W (setLayer l s) = W s \<and> H (setLayer l s) = H s
       \<and> layer (setLayer l s) = l
       \<and> ctx (setLayer l s) = Some (Context2d l)
       \<and> ctxs (setLayer l s) l = Some (Context2d l)
       \<and> (ctxs s l = None \<longrightarrow>
            children (setLayer l s) = children s @ [l]
            \<and> (\<forall>k c. canvasLayers s k = Some c \<longrightarrow>
                  canvasLayers (setLayer l s) k = Some c \<and> (zIndex c < l) = (k < l)))
       \<and> (ctxs s l \<noteq> None \<longrightarrow>
            canvasLayers (setLayer l s) = canvasLayers s
            \<and> ctxs (setLayer l s) = ctxs s
            \<and> children (setLayer l s) = children s)
       \<and> registry_ok (setLayer l s)"
proof -
  from assms have ss: "same_size s"
    and dom: "\<And>k. (ctxs s k = None) = (canvasLayers s k = None)"
    and cx: "\<And>k c. ctxs s k = Some c \<Longrightarrow> c = Context2d k"
    and zi: "\<And>k c. canvasLayers s k = Some c \<Longrightarrow> zIndex c = k"
    by (auto simp: registry_ok_def)
  have surf: "canvasLayers (setLayer l s) l = Some \<lparr>cl_width = W s, cl_height = H s, zIndex = l\<rparr>"
  proof (cases "ctxs s l")
    case None
    then show ?thesis by (simp add: setLayer_canvasLayers)
  next
    case (Some c)
    with dom [of l] obtain d where d: "canvasLayers s l = Some d" by auto
    with ss zi have "cl_width d = W s" "cl_height d = H s" "zIndex d = l"
      by (auto simp: same_size_def)
    then have "d = \<lparr>cl_width = W s, cl_height = H s, zIndex = l\<rparr>" by simp
    with d Some show ?thesis by (simp add: setLayer_canvasLayers)
  qed
  have target: "ctxs (setLayer l s) l = Some (Context2d l)"
  proof (cases "ctxs s l")
    case None
    then show ?thesis by (simp add: setLayer_ctxs)
  next
    case (Some c)
    with cx have "c = Context2d l" by simp
    with Some show ?thesis by (simp add: setLayer_ctxs)
  qed
  have first: "ctxs s l = None \<longrightarrow>
            children (setLayer l s) = children s @ [l]
            \<and> (\<forall>k c. canvasLayers s k = Some c \<longrightarrow>
                  canvasLayers (setLayer l s) k = Some c \<and> (zIndex c < l) = (k < l))"
  proof (intro impI conjI allI)
    assume n: "ctxs s l = None"
    then show "children (setLayer l s) = children s @ [l]" by (simp add: setLayer_children)
    fix k c assume c: "canvasLayers s k = Some c"
    with n dom [of l] have "k \<noteq> l" by auto
    with c show "canvasLayers (setLayer l s) k = Some c" by (simp add: setLayer_canvasLayers)
    from zi [OF c] show "(zIndex c < l) = (k < l)" by simp
  qed
  have later: "ctxs s l \<noteq> None \<longrightarrow>
            canvasLayers (setLayer l s) = canvasLayers s
            \<and> ctxs (setLayer l s) = ctxs s
            \<and> children (setLayer l s) = children s"
    by (auto simp: setLayer_def Let_def)
  from surf target first later registry_ok_setLayer [OF assms] show ?thesis
    by (simp add: setLayer_ctx)
qed

text \<open>Layer 1 used for the first time after layers 0 and 2: it goes between them.\<close>

theorem setLayer_contract_witness:
  "registry_ok (setLayer 2 (registry_boot 800 600))
   \<and> ctxs (setLayer 2 (registry_boot 800 600)) 1 = None
   \<and> canvasLayers (setLayer 1 (setLayer 2 (registry_boot 800 600))) 1
       = Some \<lparr>cl_width = 800, cl_height = 600, zIndex = 1\<rparr>
   \<and> layer (setLayer 1 (setLayer 2 (registry_boot 800 600))) = 1
   \<and> ctx (setLayer 1 (setLayer 2 (registry_boot 800 600))) = Some (Context2d 1)
   \<and> children (setLayer 1 (setLayer 2 (registry_boot 800 600))) = [0, 2, 1]"
proof -
  let ?s = "setLayer 2 (registry_boot 800 600)"
  have ok: "registry_ok ?s"
    by (rule registry_ok_setLayer [OF registry_ok_boot])
  have n: "ctxs ?s 1 = None"
    by (simp add: registry_boot_def resetCanvas_def setLayer_def Let_def)
  have ch: "children ?s = [0, 2]"
    by (simp add: registry_boot_def resetCanvas_def setLayer_def Let_def)
  have wh: "W ?s = 800" "H ?s = 600"
    by (simp_all add: registry_boot_def)
  from setLayer_contract [OF ok, of 1] ok n ch wh show ?thesis by simp
qed

text \<open>
  The claim C5 as stated asks for a new surface above every surface made before it. Layer 2 is
  made first and layer 1 after it: the surface of layer 1 gets the \<^verbatim>\<open>z-index\<close> 1 and lies below
  the older surface of layer 2, which keeps the \<^verbatim>\<open>z-index\<close> 2.
\<close>

theorem setLayer_above_earlier_counterexample:
  "ctxs (registry_boot 800 600) 2 = None
   \<and> ctxs (setLayer 2 (registry_boot 800 600)) 2 = Some (Context2d 2)
   \<and> ctxs (setLayer 2 (registry_boot 800 600)) 1 = None
   \<and> map_option zIndex (canvasLayers (setLayer 1 (setLayer 2 (registry_boot 800 600))) 2) = Some 2
   \<and> map_option zIndex (canvasLayers (setLayer 1 (setLayer 2 (registry_boot 800 600))) 1) = Some 1
   \<and> \<not> (the (map_option zIndex (canvasLayers (setLayer 1 (setLayer 2 (registry_boot 800 600))) 2))
         < the (map_option zIndex (canvasLayers (setLayer 1 (setLayer 2 (registry_boot 800 600))) 1)))"
  by (simp add: registry_boot_def resetCanvas_def setLayer_def Let_def)

subsection \<open>Cells and grids\<close>

lemma for_loop_append:
  "for_loop body (xs @ ys) s =
     (case for_loop body xs s of (bs, s1) \<Rightarrow>
        (case for_loop body ys s1 of (cs, s2) \<Rightarrow> (bs @ cs, s2)))"
  by (induction xs arbitrary: s) (auto split: prod.splits)

lemma row_loop:
  "for_loop (\<lambda>j. new (mk j)) [0..<n] w = (as, w1) \<Longrightarrow>
     as = [next_addr w..<next_addr w + n] \<and> next_addr w1 = next_addr w + n \<and> reg w1 = reg w
     \<and> (\<forall>j<n. heap w1 (next_addr w + j) = Some (mk j))
     \<and> (\<forall>a. a < next_addr w \<or> next_addr w + n \<le> a \<longrightarrow> heap w1 a = heap w a)"
proof (induction n arbitrary: as w1)
  case 0
  then show ?case by simp
next
  case (Suc n)
  obtain bs s1 where l: "for_loop (\<lambda>j. new (mk j)) [0..<n] w = (bs, s1)"
    by (cases "for_loop (\<lambda>j. new (mk j)) [0..<n] w")
  from Suc.IH [OF l] have
    bs: "bs = [next_addr w..<next_addr w + n]" and nx: "next_addr s1 = next_addr w + n"
    and rg: "reg s1 = reg w"
    and hp: "\<And>j. j < n \<Longrightarrow> heap s1 (next_addr w + j) = Some (mk j)"
    and fr: "\<And>a. a < next_addr w \<or> next_addr w + n \<le> a \<Longrightarrow> heap s1 a = heap w a"
    by auto
  have "for_loop (\<lambda>j. new (mk j)) [0..<Suc n] w =
          (case for_loop (\<lambda>j. new (mk j)) [n] s1 of (cs, s2) \<Rightarrow> (bs @ cs, s2))"
    using l by (simp add: for_loop_append)
  moreover have "for_loop (\<lambda>j. new (mk j)) [n] s1 =
          ([next_addr s1], s1\<lparr>heap := (heap s1)(next_addr s1 \<mapsto> mk n), next_addr := Suc (next_addr s1)\<rparr>)"
    by (simp add: new_def)
  ultimately have as: "as = bs @ [next_addr s1]"
    and w1: "w1 = s1\<lparr>heap := (heap s1)(next_addr s1 \<mapsto> mk n), next_addr := Suc (next_addr s1)\<rparr>"
    using Suc.prems by simp_all
  have "as = [next_addr w..<next_addr w + Suc n]" using as bs nx by simp
  moreover have "next_addr w1 = next_addr w + Suc n" using w1 nx by simp
  moreover have "reg w1 = reg w" using w1 rg by simp
  moreover have "\<forall>j<Suc n. heap w1 (next_addr w + j) = Some (mk j)"
  proof (intro allI impI)
    fix j assume "j < Suc n"
    then consider "j < n" | "j = n" by linarith
    then show "heap w1 (next_addr w + j) = Some (mk j)"
    proof cases
      case 1 with hp [OF 1] show ?thesis by (simp add: w1 nx)
    next
      case 2 then show ?thesis by (simp add: w1 nx)
    qed
  qed
  moreover have "\<forall>a. a < next_addr w \<or> next_addr w + Suc n \<le> a \<longrightarrow> heap w1 a = heap w a"
  proof (intro allI impI)
    fix a assume a: "a < next_addr w \<or> next_addr w + Suc n \<le> a"
    then have "a \<noteq> next_addr s1" using nx by auto
    moreover from a have "a < next_addr w \<or> next_addr w + n \<le> a" by auto
    ultimately show "heap w1 a = heap w a" using fr by (simp add: w1)
  qed
  ultimately show ?case by blast
qed

lemma grid_loop:
  "for_loop (\<lambda>i. for_loop (\<lambda>j. new (mk i j)) [0..<c]) [0..<r] w = (cs, w1) \<Longrightarrow>
     cs = map (\<lambda>i. [next_addr w + i * c..<next_addr w + i * c + c]) [0..<r]
     \<and> next_addr w1 = next_addr w + r * c \<and> reg w1 = reg w
     \<and> (\<forall>i<r. \<forall>j<c. heap w1 (next_addr w + i * c + j) = Some (mk i j))
     \<and> (\<forall>a. a < next_addr w \<or> next_addr w + r * c \<le> a \<longrightarrow> heap w1 a = heap w a)"
proof (induction r arbitrary: cs w1)
  case 0
  then show ?case by simp
next
  case (Suc r)
  let ?body = "\<lambda>i. for_loop (\<lambda>j. new (mk i j)) [0..<c]"
  obtain bs s1 where l: "for_loop ?body [0..<r] w = (bs, s1)"
    by (cases "for_loop ?body [0..<r] w")
  obtain row w2 where rw: "?body r s1 = (row, w2)"
    by (cases "?body r s1")
  from Suc.IH [OF l] have
    bs: "bs = map (\<lambda>i. [next_addr w + i * c..<next_addr w + i * c + c]) [0..<r]"
    and nx: "next_addr s1 = next_addr w + r * c"
    and rg: "reg s1 = reg w"
    and hp: "\<And>i j. i < r \<Longrightarrow> j < c \<Longrightarrow> heap s1 (next_addr w + i * c + j) = Some (mk i j)"
    and fr: "\<And>a. a < next_addr w \<or> next_addr w + r * c \<le> a \<Longrightarrow> heap s1 a = heap w a"
    by auto
  from row_loop [OF rw] have
    row: "row = [next_addr s1..<next_addr s1 + c]" and nx2: "next_addr w2 = next_addr s1 + c"
    and rg2: "reg w2 = reg s1"
    and hp2: "\<And>j. j < c \<Longrightarrow> heap w2 (next_addr s1 + j) = Some (mk r j)"
    and fr2: "\<And>a. a < next_addr s1 \<or> next_addr s1 + c \<le> a \<Longrightarrow> heap w2 a = heap s1 a"
    by auto
  have "for_loop ?body [0..<Suc r] w = (case for_loop ?body [r] s1 of (ds, s2) \<Rightarrow> (bs @ ds, s2))"
    using l by (simp add: for_loop_append)
  moreover have "for_loop ?body [r] s1 = ([row], w2)"
    using rw by simp
  ultimately have cs: "cs = bs @ [row]" and w1: "w1 = w2"
    using Suc.prems by simp_all
  have "cs = map (\<lambda>i. [next_addr w + i * c..<next_addr w + i * c + c]) [0..<Suc r]"
    using cs bs row nx by simp
  moreover have "next_addr w1 = next_addr w + Suc r * c" using w1 nx nx2 by simp
  moreover have "reg w1 = reg w" using w1 rg rg2 by simp
  moreover have "\<forall>i<Suc r. \<forall>j<c. heap w1 (next_addr w + i * c + j) = Some (mk i j)"
  proof (intro allI impI)
    fix i j assume i: "i < Suc r" and j: "j < c"
    from i consider "i < r" | "i = r" by linarith
    then show "heap w1 (next_addr w + i * c + j) = Some (mk i j)"
    proof cases
      case 1
      then have "Suc i \<le> r" by simp
      then have "Suc i * c \<le> r * c" by (rule mult_le_mono1)
      with j have "i * c + j < r * c" by simp
      then have "next_addr w + i * c + j < next_addr s1" using nx by simp
      from fr2 [of "next_addr w + i * c + j"] this hp [OF 1 j] show ?thesis
        by (simp add: w1)
    next
      case 2
      with hp2 [OF j] show ?thesis by (simp add: w1 nx add.assoc)
    qed
  qed
  moreover have "\<forall>a. a < next_addr w \<or> next_addr w + Suc r * c \<le> a \<longrightarrow> heap w1 a = heap w a"
  proof (intro allI impI)
    fix a assume a: "a < next_addr w \<or> next_addr w + Suc r * c \<le> a"
    then have "a < next_addr s1 \<or> next_addr s1 + c \<le> a" using nx by auto
    then have "heap w2 a = heap s1 a" by (rule fr2)
    moreover from a have "a < next_addr w \<or> next_addr w + r * c \<le> a" by auto
    then have "heap s1 a = heap w a" by (rule fr)
    ultimately show "heap w1 a = heap w a" by (simp add: w1)
  qed
  ultimately show ?case by blast
qed


lemma Cell_draw_plain:
  assumes "\<And>c. heap w a = Some c \<Longrightarrow> cell_custom c = None"
  shows "heap (Cell_draw run a w) = heap w" and "next_addr (Cell_draw run a w) = next_addr w"
  using assms by (auto simp: Cell_draw_def Let_def split: option.splits)

lemma fold_Cell_draw_plain:
  assumes "\<And>a c. a \<in> set as \<Longrightarrow> heap w a = Some c \<Longrightarrow> cell_custom c = None"
  shows "heap (fold (Cell_draw run) as w) = heap w \<and> next_addr (fold (Cell_draw run) as w) = next_addr w"
  using assms
proof (induction as arbitrary: w)
  case Nil
  then show ?case by simp
next
  case (Cons a as)
  have 1: "heap (Cell_draw run a w) = heap w" "next_addr (Cell_draw run a w) = next_addr w"
  proof -
    have p: "cell_custom c = None" if "heap w a = Some c" for c
      using Cons.prems [of a c] that by simp
    show "heap (Cell_draw run a w) = heap w"
      by (rule Cell_draw_plain(1)) (rule p)
    show "next_addr (Cell_draw run a w) = next_addr w"
      by (rule Cell_draw_plain(2)) (rule p)
  qed
  have "heap (fold (Cell_draw run) as (Cell_draw run a w)) = heap (Cell_draw run a w)
      \<and> next_addr (fold (Cell_draw run) as (Cell_draw run a w)) = next_addr (Cell_draw run a w)"
    by (rule Cons.IH) (use Cons.prems 1 in auto)
  with 1 show ?case by simp
qed

lemma Grid_draw_plain:
  assumes "\<And>a c. a \<in> set (concat (cells g)) \<Longrightarrow> heap w a = Some c \<Longrightarrow> cell_custom c = None"
  shows "heap (Grid_draw run g w) = heap w" and "next_addr (Grid_draw run g w) = next_addr w"
proof -
  let ?w1 = "w\<lparr>reg := setLayer (grid_layer g) (reg w)\<rparr>"
  have "heap (fold (Cell_draw run) (concat (cells g)) ?w1) = heap ?w1
      \<and> next_addr (fold (Cell_draw run) (concat (cells g)) ?w1) = next_addr ?w1"
    by (rule fold_Cell_draw_plain) (use assms in auto)
  then show "heap (Grid_draw run g w) = heap w" and "next_addr (Grid_draw run g w) = next_addr w"
    by (simp_all add: Grid_draw_def Let_def)
qed

lemma Grid_new_no_rows: "Grid_new run 0 c x y wd ht col w = Inl TypeError"
  by (simp add: Grid_new_def js_index_def)

lemma js_index_upt:
  "js_index [a..<a + c] k = (if 0 \<le> k \<and> k < int c then Some (a + nat k) else None)"
proof (cases "0 \<le> k \<and> k < int c")
  case True
  then have "nat k < c" by linarith
  with True show ?thesis by (simp add: js_index_def)
next
  case False
  then show ?thesis by (auto simp add: js_index_def)
qed

lemma js_index_rows:
  "js_index (map (\<lambda>i. [b + i * c..<b + i * c + c]) [0..<r]) k =
     (if 0 \<le> k \<and> k < int r then Some [b + nat k * c..<b + nat k * c + c] else None)"
proof (cases "0 \<le> k \<and> k < int r")
  case True
  then have "nat k < r" by linarith
  with True show ?thesis by (simp add: js_index_def)
next
  case False
  then show ?thesis by (auto simp add: js_index_def)
qed

lemma cells_lookup:
  assumes "cells g = map (\<lambda>i. [b + i * c..<b + i * c + c]) [0..<r]"
  shows "Grid_cell g row column =
           (if 0 \<le> row \<and> row < int r
            then Inr (if 0 \<le> column \<and> column < int c
                      then Some (b + nat row * c + nat column) else None)
            else Inl TypeError)"
  by (simp add: Grid_cell_def assms js_index_rows js_index_upt)

lemma cell_index_inj:
  fixes c :: nat
  assumes "i * c + j = i' * c + j'" and "j < c" and "j' < c"
  shows "i = i' \<and> j = j'"
proof -
  from assms(1) have "(i * c + j) mod c = (i' * c + j') mod c" by simp
  with assms(2,3) have j: "j = j'" by simp
  with assms(1) have "i * c = i' * c" by simp
  with assms(2) have "i = i'" by simp
  with j show ?thesis by simp
qed

lemma cell_at_new:
  assumes "cells g = map (\<lambda>i. [b + i * c..<b + i * c + c]) [0..<r]"
  shows "cell_at w g i j = (if i < r \<and> j < c then heap w (b + i * c + j) else None)"
  by (simp add: cell_at_def cells_lookup [OF assms])


lemma Grid_new_result:
  fixes r c :: nat and x y wd ht :: real and w :: "'cb world"
  assumes r: "0 < r"
  obtains g w' where
    "Grid_new run r c x y wd ht col w = Inr (g, w')"
    "cells g = map (\<lambda>i. [next_addr w + i * c..<next_addr w + i * c + c]) [0..<r]"
    "grid_rows g = r" "grid_columns g = c"
    "cellWidth g = (wd - real c - 1) / real c" "cellHeight g = (ht - real r - 1) / real r"
    "next_addr w' = next_addr w + r * c"
    "\<And>i j. cell_at w' g i j =
       (if i < r \<and> j < c
        then Some (Cell i j (x + real j * (cellWidth g + 1) + 1) (y + real i * (cellHeight g + 1) + 1)
                     (cellWidth g) (cellHeight g) col (layer (reg w)))
        else None)"
    "\<And>i j. i < r \<Longrightarrow> j < c \<Longrightarrow>
       heap w' (next_addr w + i * c + j) =
         Some (Cell i j (x + real j * (cellWidth g + 1) + 1) (y + real i * (cellHeight g + 1) + 1)
                 (cellWidth g) (cellHeight g) col (layer (reg w)))"
    "\<And>a. a < next_addr w \<or> next_addr w + r * c \<le> a \<Longrightarrow> heap w' a = heap w a"
    "grid_x g = x" "grid_y g = y" "grid_width g = wd" "grid_height g = ht"
proof -
  define cw where "cw = (wd - real c - 1) / real c"
  define ch where "ch = (ht - real r - 1) / real r"
  let ?mk = "\<lambda>i j. Cell i j (x + real j * (cw + 1) + 1) (y + real i * (ch + 1) + 1) cw ch col (layer (reg w)) :: 'cb cell"
  let ?loop = "for_loop (\<lambda>i. for_loop (\<lambda>j. new (?mk i j)) [0..<c]) [0..<r] w"
  obtain cs w1 where l: "?loop = (cs, w1)" by (cases ?loop)
  from grid_loop [OF l] have
    cs: "cs = map (\<lambda>i. [next_addr w + i * c..<next_addr w + i * c + c]) [0..<r]"
    and nx: "next_addr w1 = next_addr w + r * c"
    and hp: "\<And>i j. i < r \<Longrightarrow> j < c \<Longrightarrow> heap w1 (next_addr w + i * c + j) = Some (?mk i j)"
    and fr: "\<And>a. a < next_addr w \<or> next_addr w + r * c \<le> a \<Longrightarrow> heap w1 a = heap w a"
    by auto
  from cs r have row0: "js_index cs 0 = Some [next_addr w..<next_addr w + c]"
    by (simp add: js_index_def)
  define g where "g = \<lparr>grid_rows = r, grid_columns = c, grid_x = x, grid_y = y,
                       grid_width = wd, grid_height = ht, grid_color = col,
                       activatable = True, activeCell = js_index [next_addr w..<next_addr w + c] 0, cells = cs,
                       cellWidth = cw, cellHeight = ch, grid_layer = layer (reg w)\<rparr>"
  have res: "Grid_new run r c x y wd ht col w = Inr (g, Grid_draw run g w1)"
    unfolding Grid_new_def Let_def cw_def [symmetric] ch_def [symmetric]
    by (simp add: l row0 g_def)
  have plain: "cell_custom d = None" if "a \<in> set (concat (cells g))" "heap w1 a = Some d" for a d
  proof -
    from that(1) obtain i where i: "i < r" and a: "a \<in> set [next_addr w + i * c..<next_addr w + i * c + c]"
      by (auto simp: g_def cs)
    then obtain j where j: "j < c" and "a = next_addr w + i * c + j"
      by (auto simp: nat_le_iff_add)
    with hp [OF i j] that(2) show ?thesis by (auto simp add: Cell_def)
  qed
  have h: "heap (Grid_draw run g w1) = heap w1"
    by (rule Grid_draw_plain(1)) (rule plain)
  have n: "next_addr (Grid_draw run g w1) = next_addr w1"
    by (rule Grid_draw_plain(2)) (rule plain)
  have cells: "cells g = map (\<lambda>i. [next_addr w + i * c..<next_addr w + i * c + c]) [0..<r]"
    by (simp add: g_def cs)
  have dims: "grid_rows g = r" "grid_columns g = c"
    "cellWidth g = (wd - real c - 1) / real c" "cellHeight g = (ht - real r - 1) / real r"
    by (simp_all add: g_def cw_def ch_def)
  have gw: "cellWidth g = cw" "cellHeight g = ch" by (simp_all add: g_def)
  have n': "next_addr (Grid_draw run g w1) = next_addr w + r * c"
    using n nx by simp
  have hp': "heap (Grid_draw run g w1) (next_addr w + i * c + j) =
         Some (Cell i j (x + real j * (cellWidth g + 1) + 1) (y + real i * (cellHeight g + 1) + 1)
                 (cellWidth g) (cellHeight g) col (layer (reg w)))"
    if "i < r" "j < c" for i j
    using hp [OF that] h gw by simp
  have at: "cell_at (Grid_draw run g w1) g i j =
       (if i < r \<and> j < c
        then Some (Cell i j (x + real j * (cellWidth g + 1) + 1) (y + real i * (cellHeight g + 1) + 1)
                     (cellWidth g) (cellHeight g) col (layer (reg w)))
        else None)" for i j
    using hp' [of i j] by (simp add: cell_at_new [OF cells])
  have fr': "heap (Grid_draw run g w1) a = heap w a"
    if "a < next_addr w \<or> next_addr w + r * c \<le> a" for a
    using fr [OF that] h by simp
  have geo: "grid_x g = x" "grid_y g = y" "grid_width g = wd" "grid_height g = ht"
    by (simp_all add: g_def)
  from res cells dims n' at hp' fr' geo show ?thesis by (rule that)
qed


lemma Grid_new_Inr:
  assumes "0 < r"
  shows "\<exists>g w'. Grid_new run r c x y wd ht col w = Inr (g, w')"
  by (rule Grid_new_result [OF assms, of run c x y wd ht col w]) blast

lemma Grid_new_facts:
  fixes w :: "'cb world"
  assumes "Grid_new run r c x y wd ht col w = Inr (g, w')"
  shows "0 < r"
    and "cells g = map (\<lambda>i. [next_addr w + i * c..<next_addr w + i * c + c]) [0..<r]"
    and "grid_rows g = r" and "grid_columns g = c"
    and "cellWidth g = (wd - real c - 1) / real c" and "cellHeight g = (ht - real r - 1) / real r"
    and "next_addr w' = next_addr w + r * c"
    and "cell_at w' g i j =
       (if i < r \<and> j < c
        then Some (Cell i j (x + real j * (cellWidth g + 1) + 1) (y + real i * (cellHeight g + 1) + 1)
                     (cellWidth g) (cellHeight g) col (layer (reg w)))
        else None)"
    and "i < r \<Longrightarrow> j < c \<Longrightarrow>
       heap w' (next_addr w + i * c + j) =
         Some (Cell i j (x + real j * (cellWidth g + 1) + 1) (y + real i * (cellHeight g + 1) + 1)
                 (cellWidth g) (cellHeight g) col (layer (reg w)))"
    and "a < next_addr w \<or> next_addr w + r * c \<le> a \<Longrightarrow> heap w' a = heap w a"
    and "grid_x g = x" and "grid_y g = y" and "grid_width g = wd" and "grid_height g = ht"
proof -
  show r: "0 < r"
  proof (rule ccontr)
    assume "\<not> 0 < r"
    then have "r = 0" by simp
    with assms show False by (simp add: Grid_new_no_rows)
  qed
  have all: "cells g = map (\<lambda>i. [next_addr w + i * c..<next_addr w + i * c + c]) [0..<r]
    \<and> grid_rows g = r \<and> grid_columns g = c
    \<and> cellWidth g = (wd - real c - 1) / real c \<and> cellHeight g = (ht - real r - 1) / real r
    \<and> next_addr w' = next_addr w + r * c
    \<and> (\<forall>i j. cell_at w' g i j =
       (if i < r \<and> j < c
        then Some (Cell i j (x + real j * (cellWidth g + 1) + 1) (y + real i * (cellHeight g + 1) + 1)
                     (cellWidth g) (cellHeight g) col (layer (reg w)))
        else None))
    \<and> (\<forall>i j. i < r \<longrightarrow> j < c \<longrightarrow>
       heap w' (next_addr w + i * c + j) =
         Some (Cell i j (x + real j * (cellWidth g + 1) + 1) (y + real i * (cellHeight g + 1) + 1)
                 (cellWidth g) (cellHeight g) col (layer (reg w))))
    \<and> (\<forall>a. a < next_addr w \<or> next_addr w + r * c \<le> a \<longrightarrow> heap w' a = heap w a)
    \<and> grid_x g = x \<and> grid_y g = y \<and> grid_width g = wd \<and> grid_height g = ht"
  proof (rule Grid_new_result [OF r, of run c x y wd ht col w])
    fix g0 :: grid and w0 :: "'cb world"
    assume res: "Grid_new run r c x y wd ht col w = Inr (g0, w0)"
      and 1: "cells g0 = map (\<lambda>i. [next_addr w + i * c..<next_addr w + i * c + c]) [0..<r]"
      and 2: "grid_rows g0 = r" "grid_columns g0 = c"
        "cellWidth g0 = (wd - real c - 1) / real c" "cellHeight g0 = (ht - real r - 1) / real r"
        "next_addr w0 = next_addr w + r * c"
      and 3: "\<And>i j. cell_at w0 g0 i j =
       (if i < r \<and> j < c
        then Some (Cell i j (x + real j * (cellWidth g0 + 1) + 1) (y + real i * (cellHeight g0 + 1) + 1)
                     (cellWidth g0) (cellHeight g0) col (layer (reg w)))
        else None)"
      and 4: "\<And>i j. i < r \<Longrightarrow> j < c \<Longrightarrow>
       heap w0 (next_addr w + i * c + j) =
         Some (Cell i j (x + real j * (cellWidth g0 + 1) + 1) (y + real i * (cellHeight g0 + 1) + 1)
                 (cellWidth g0) (cellHeight g0) col (layer (reg w)))"
      and 5: "\<And>a. a < next_addr w \<or> next_addr w + r * c \<le> a \<Longrightarrow> heap w0 a = heap w a"
      and 6: "grid_x g0 = x" "grid_y g0 = y" "grid_width g0 = wd" "grid_height g0 = ht"
    from res assms have eq: "g0 = g" "w0 = w'" by simp_all
    from 1 2 3 4 5 6 show ?thesis unfolding eq by blast
  qed
  from all show "cells g = map (\<lambda>i. [next_addr w + i * c..<next_addr w + i * c + c]) [0..<r]"
    and "grid_rows g = r" and "grid_columns g = c"
    and "cellWidth g = (wd - real c - 1) / real c" and "cellHeight g = (ht - real r - 1) / real r"
    and "next_addr w' = next_addr w + r * c"
    and "cell_at w' g i j =
       (if i < r \<and> j < c
        then Some (Cell i j (x + real j * (cellWidth g + 1) + 1) (y + real i * (cellHeight g + 1) + 1)
                     (cellWidth g) (cellHeight g) col (layer (reg w)))
        else None)"
    and "i < r \<Longrightarrow> j < c \<Longrightarrow>
       heap w' (next_addr w + i * c + j) =
         Some (Cell i j (x + real j * (cellWidth g + 1) + 1) (y + real i * (cellHeight g + 1) + 1)
                 (cellWidth g) (cellHeight g) col (layer (reg w)))"
    and "a < next_addr w \<or> next_addr w + r * c \<le> a \<Longrightarrow> heap w' a = heap w a"
    and "grid_x g = x" and "grid_y g = y" and "grid_width g = wd" and "grid_height g = ht"
    by blast+
qed

lemma set_color_heap:
  assumes "heap w a = Some cl" and "cell_custom cl = None"
  shows "heap (Cell_set_color run v a w) = (heap w)(a \<mapsto> cl\<lparr>cell_color := v\<rparr>)"
proof -
  let ?w = "w\<lparr>heap := (heap w)(a \<mapsto> cl\<lparr>cell_color := v\<rparr>)\<rparr>"
  have "heap (Cell_draw run a ?w) = heap ?w"
    by (rule Cell_draw_plain(1)) (use assms(2) in auto)
  with assms(1) show ?thesis by (simp add: Cell_set_color_def)
qed

text \<open>
  C7. In a grid fresh from its constructor, assigning a colour to the cell at a position changes
  the colour of that cell and nothing else: the assigned value is read back, every other cell of
  the grid, and every other object of the store, is as before.
\<close>

theorem set_color_frame:
  assumes "Grid_new run r c x y wd ht col w = Inr (g, w1)" and "i0 < r" and "j0 < c"
  shows "\<exists>a. Grid_cell g (int i0) (int j0) = Inr (Some a)
       \<and> Cell_get_color a (Cell_set_color run v a w1) = v
       \<and> cell_at (Cell_set_color run v a w1) g i0 j0 =
           map_option (\<lambda>cl. cl\<lparr>cell_color := v\<rparr>) (cell_at w1 g i0 j0)
       \<and> cell_at w1 g i0 j0 \<noteq> None
       \<and> (\<forall>i j. (i, j) \<noteq> (i0, j0) \<longrightarrow> cell_at (Cell_set_color run v a w1) g i j = cell_at w1 g i j)
       \<and> (\<forall>b. b \<noteq> a \<longrightarrow> heap (Cell_set_color run v a w1) b = heap w1 b)"
proof -
  note cs = Grid_new_facts(2) [OF assms(1)]
  note hp = Grid_new_facts(9) [OF assms(1)]
  let ?a = "next_addr w + i0 * c + j0"
  let ?cl = "Cell i0 j0 (x + real j0 * (cellWidth g + 1) + 1) (y + real i0 * (cellHeight g + 1) + 1)
                 (cellWidth g) (cellHeight g) col (layer (reg w)) :: 'a cell"
  let ?w2 = "Cell_set_color run v ?a w1"
  have cell: "Grid_cell g (int i0) (int j0) = Inr (Some ?a)"
    using assms(2,3) by (simp add: cells_lookup [OF cs])
  have old: "heap w1 ?a = Some ?cl"
    by (rule hp [OF assms(2,3)])
  have new: "heap ?w2 = (heap w1)(?a \<mapsto> ?cl\<lparr>cell_color := v\<rparr>)"
    by (rule set_color_heap [OF old]) (simp add: Cell_def)
  have at: "cell_at u g i j = (if i < r \<and> j < c then heap u (next_addr w + i * c + j) else None)" for u :: "'a world" and i j
    by (rule cell_at_new [OF cs])
  have 1: "Cell_get_color ?a ?w2 = v"
    by (simp add: Cell_get_color_def new)
  have 2: "cell_at ?w2 g i0 j0 = map_option (\<lambda>cl. cl\<lparr>cell_color := v\<rparr>) (cell_at w1 g i0 j0)"
    using assms(2,3) by (simp add: at new old)
  have 3: "cell_at w1 g i0 j0 \<noteq> None"
    using assms(2,3) by (simp add: at old)
  have 4: "cell_at ?w2 g i j = cell_at w1 g i j" if "(i, j) \<noteq> (i0, j0)" for i j
  proof (cases "i < r \<and> j < c")
    case True
    with that assms(3) cell_index_inj [of i c j i0 j0]
    have "next_addr w + i * c + j \<noteq> ?a" by auto
    then have "heap ?w2 (next_addr w + i * c + j) = heap w1 (next_addr w + i * c + j)"
      by (simp add: new)
    with True show ?thesis by (simp add: at)
  next
    case False
    then show ?thesis by (auto simp add: at)
  qed
  have 5: "heap ?w2 b = heap w1 b" if "b \<noteq> ?a" for b
    using that by (simp add: new)
  from cell 1 2 3 4 5 show ?thesis by blast
qed

lemma grid_2x2_result: "grid_2x2 = Inr (test_grid, test_world)"
proof -
  have "\<exists>g w'. grid_2x2 = Inr (g, w')"
    unfolding grid_2x2_def by (rule Grid_new_Inr) simp
  then obtain g w' where e: "grid_2x2 = Inr (g, w')" by blast
  show ?thesis by (simp add: test_grid_def test_world_def e)
qed

theorem set_color_frame_witness:
  "grid_2x2 = Inr (test_grid, test_world)
   \<and> Grid_cell test_grid 0 0 = Inr (Some 0)
   \<and> Cell_get_color 0 red_world = Some ''red''
   \<and> map_option cell_color (cell_at test_world test_grid 0 0) = Some None
   \<and> map_option cell_color (cell_at red_world test_grid 0 0) = Some (Some ''red'')
   \<and> cell_at red_world test_grid 0 1 = cell_at test_world test_grid 0 1
   \<and> cell_at red_world test_grid 1 0 = cell_at test_world test_grid 1 0
   \<and> cell_at red_world test_grid 1 1 = cell_at test_world test_grid 1 1
   \<and> map_option cell_color (cell_at red_world test_grid 0 1) = Some None
   \<and> map_option cell_color (cell_at red_world test_grid 1 0) = Some None
   \<and> map_option cell_color (cell_at red_world test_grid 1 1) = Some None"
proof -
  note res = grid_2x2_result [unfolded grid_2x2_def]
  note cs = Grid_new_facts(2) [OF res]
  note at = Grid_new_facts(8) [OF res]
  have cell: "Grid_cell test_grid 0 0 = Inr (Some 0)"
    using cells_lookup [OF cs, of 0 0] by (simp add: world_boot_def)
  then have red: "red_world = Cell_set_color no_custom (Some ''red'') 0 test_world"
    by (simp add: red_world_def)
  have before: "map_option cell_color (cell_at test_world test_grid i j) = Some None" if "i < 2" "j < 2" for i j
    using at [of i j] that by (simp add: Cell_def)
  from set_color_frame [OF res, of 0 0 "Some ''red''"] cell
  have frame: "Cell_get_color 0 red_world = Some ''red''"
    "cell_at red_world test_grid 0 0 =
       map_option (\<lambda>cl. cl\<lparr>cell_color := Some ''red''\<rparr>) (cell_at test_world test_grid 0 0)"
    "\<And>i j. (i, j) \<noteq> (0, 0) \<Longrightarrow> cell_at red_world test_grid i j = cell_at test_world test_grid i j"
    by (auto simp: red)
  have c00: "map_option cell_color (cell_at red_world test_grid 0 0) = Some (Some ''red'')"
    using at [of 0 0] by (simp add: frame(2) Cell_def)
  have o01: "cell_at red_world test_grid 0 1 = cell_at test_world test_grid 0 1"
    and o10: "cell_at red_world test_grid 1 0 = cell_at test_world test_grid 1 0"
    and o11: "cell_at red_world test_grid 1 1 = cell_at test_world test_grid 1 1"
    by (simp_all add: frame(3))
  from grid_2x2_result cell frame(1) c00 o01 o10 o11 before [of 0 0] before [of 0 1] before [of 1 0] before [of 1 1]
  show ?thesis by simp
qed


text \<open>
  C9. \<open>Grid_cell\<close> checks nothing. On a grid with \<open>r\<close> rows and \<open>c\<close> columns it returns the stored cell
  for a row and a column in range, and it throws for every row outside \<open>[0, r)\<close>, where
  \<^verbatim>\<open>this.cells[row]\<close> is \<^verbatim>\<open>undefined\<close>. A column out of range in a row in range is no fault: the result is
  \<^verbatim>\<open>undefined\<close>.
\<close>

theorem Grid_cell_unchecked:
  assumes "Grid_new run r c x y wd ht col w = Inr (g, w')"
  shows "grid_rows g = r \<and> grid_columns g = c
       \<and> (0 \<le> row \<and> row < int r \<and> 0 \<le> column \<and> column < int c \<longrightarrow>
            (\<exists>a cl. Grid_cell g row column = Inr (Some a)
               \<and> a = cells g ! nat row ! nat column
               \<and> heap w' a = Some cl \<and> cell_row cl = nat row \<and> cell_column cl = nat column))
       \<and> (row < 0 \<or> int r \<le> row \<longrightarrow> Grid_cell g row column = Inl TypeError)
       \<and> (0 \<le> row \<and> row < int r \<and> (column < 0 \<or> int c \<le> column) \<longrightarrow>
            Grid_cell g row column = Inr None)"
proof -
  note cs = Grid_new_facts(2) [OF assms]
  note hp = Grid_new_facts(9) [OF assms]
  note look = cells_lookup [OF cs, of row column]
  have inside: "\<exists>a cl. Grid_cell g row column = Inr (Some a)
               \<and> a = cells g ! nat row ! nat column
               \<and> heap w' a = Some cl \<and> cell_row cl = nat row \<and> cell_column cl = nat column"
    if "0 \<le> row \<and> row < int r \<and> 0 \<le> column \<and> column < int c"
  proof -
    from that have n: "nat row < r" and m: "nat column < c" by linarith+
    have "cells g ! nat row ! nat column = next_addr w + nat row * c + nat column"
      using n m by (simp add: cs)
    moreover have "Grid_cell g row column = Inr (Some (next_addr w + nat row * c + nat column))"
      using that by (simp add: look)
    moreover have "cell_row (Cell (nat row) (nat column) a1 a2 a3 a4 a5 a6 :: 'a cell) = nat row"
      "cell_column (Cell (nat row) (nat column) a1 a2 a3 a4 a5 a6 :: 'a cell) = nat column"
      for a1 a2 a3 a4 a5 a6
      by (simp_all add: Cell_def)
    ultimately show ?thesis using hp [OF n m] by simp
  qed
  have outside: "Grid_cell g row column = Inl TypeError" if "row < 0 \<or> int r \<le> row"
    using that by (auto simp add: look)
  have column_out: "Grid_cell g row column = Inr None"
    if "0 \<le> row \<and> row < int r \<and> (column < 0 \<or> int c \<le> column)"
    using that by (auto simp add: look)
  from inside outside column_out Grid_new_facts(3,4) [OF assms] show ?thesis by blast
qed

theorem Grid_cell_unchecked_witness:
  "grid_2x2 = Inr (test_grid, test_world)
   \<and> Grid_cell test_grid 1 1 = Inr (Some (cells test_grid ! 1 ! 1))
   \<and> map_option cell_row (heap test_world (cells test_grid ! 1 ! 1)) = Some 1
   \<and> map_option cell_column (heap test_world (cells test_grid ! 1 ! 1)) = Some 1
   \<and> Grid_cell test_grid 2 0 = Inl TypeError
   \<and> Grid_cell test_grid (- 1) 0 = Inl TypeError
   \<and> Grid_cell test_grid 0 2 = Inr None"
proof -
  note res = grid_2x2_result [unfolded grid_2x2_def]
  from Grid_cell_unchecked [OF res, of 1 1]
  have 1: "Grid_cell test_grid 1 1 = Inr (Some (cells test_grid ! 1 ! 1))"
    "map_option cell_row (heap test_world (cells test_grid ! 1 ! 1)) = Some 1"
    "map_option cell_column (heap test_world (cells test_grid ! 1 ! 1)) = Some 1"
    by auto
  from Grid_cell_unchecked [OF res, of 2 0]
  have 2: "Grid_cell test_grid 2 0 = Inl TypeError" by simp
  from Grid_cell_unchecked [OF res, of "- 1" 0]
  have 3: "Grid_cell test_grid (- 1) 0 = Inl TypeError" by simp
  from Grid_cell_unchecked [OF res, of 0 2]
  have 4: "Grid_cell test_grid 0 2 = Inr None" by simp
  from grid_2x2_result 1 2 3 4 show ?thesis by simp
qed








subsection \<open>Sprite\<close>

lemma update_keeps [simp]:
  "loop (update d s) = loop s"
  "frames (update d s) = frames s"
  "framesPerSecond (update d s) = framesPerSecond s"
  "frame_duration (update d s) = frame_duration s"
  by (simp_all add: update_def Let_def frame_duration_def)

lemma update_remainingTime:
  "remainingTime (update d s) =
     (if remainingTime s - d < 0 then remainingTime s - d + frame_duration s
      else remainingTime s - d)"
  by (simp add: update_def Let_def frame_duration_def)

lemma update_index:
  "\<not> loop s \<Longrightarrow>
     index (update d s) =
       (if remainingTime s - d < 0 \<and> Suc (index s) < length (frames s) then Suc (index s)
        else index s)"
  by (auto simp add: update_def Let_def)

lemma update_finished:
  "\<not> loop s \<Longrightarrow>
     finished (update d s) =
       (finished s \<or> (remainingTime s - d < 0 \<and> length (frames s) \<le> Suc (index s)))"
  by (auto simp add: update_def Let_def)

text \<open>The state of a sprite that does not loop, between two updates whose time is at most a frame.\<close>

lemma update_invariant:
  assumes "\<not> loop s" and "0 < framesPerSecond s" and "index s < length (frames s)"
      and "0 \<le> remainingTime s" and "remainingTime s \<le> frame_duration s"
      and "0 \<le> d" and "d \<le> frame_duration s"
  shows "index (update d s) < length (frames s)"
    and "0 \<le> remainingTime (update d s)"
    and "remainingTime (update d s) \<le> frame_duration s"
  using assms by (auto simp add: update_index update_remainingTime)

text \<open>Once finished on the last frame, a sprite that does not loop stays there.\<close>

lemma update_done:
  assumes "\<not> loop s" and "finished s" and "Suc (index s) = length (frames s)"
  shows "finished (update d s) \<and> Suc (index (update d s)) = length (frames s)"
  using assms by (simp add: update_index update_finished)

lemma updates_done:
  assumes "\<not> loop s" and "finished s" and "Suc (index s) = length (frames s)"
  shows "finished (updates ds s) \<and> Suc (index (updates ds s)) = length (frames s)
       \<and> frames (updates ds s) = frames s \<and> \<not> loop (updates ds s)"
  using assms
proof (induction ds arbitrary: s)
  case Nil
  then show ?case by simp
next
  case (Cons d ds)
  from update_done [OF Cons.prems, of d]
  have "finished (updates ds (update d s)) \<and> Suc (index (updates ds (update d s))) = length (frames (update d s))
       \<and> frames (updates ds (update d s)) = frames (update d s) \<and> \<not> loop (updates ds (update d s))"
    by (intro Cons.IH) (simp_all add: Cons.prems)
  then show ?case by simp
qed

lemma updates_append: "updates (xs @ ys) s = updates ys (updates xs s)"
  by (induction xs arbitrary: s) simp_all

text \<open>
  The time shown so far: whole frames passed, plus the part of the current frame. Until the sprite
  finishes on its last frame, every update adds exactly its \<open>dt\<close>.
\<close>

lemma update_progress:
  assumes "\<not> loop s" and "0 < framesPerSecond s"
      and "\<not> (finished (update d s) \<and> Suc (index (update d s)) = length (frames s))"
      and "index s < length (frames s)"
  shows "real (index (update d s)) * frame_duration s - remainingTime (update d s) =
         real (index s) * frame_duration s - remainingTime s + d"
proof (cases "remainingTime s - d < 0")
  case False
  with assms(1) show ?thesis by (simp add: update_index update_remainingTime)
next
  case True
  show ?thesis
  proof (cases "Suc (index s) < length (frames s)")
    case inner: True
    with True assms(1) show ?thesis
      by (simp add: update_index update_remainingTime algebra_simps)
  next
    case False
    with assms(4) have "Suc (index s) = length (frames s)" by simp
    with True assms(1) have "finished (update d s) \<and> Suc (index (update d s)) = length (frames s)"
      by (simp add: update_index update_finished)
    with assms(3) show ?thesis by simp
  qed
qed

lemma updates_progress:
  assumes "\<not> loop s" and "0 < framesPerSecond s" and "index s < length (frames s)"
      and "0 \<le> remainingTime s" and "remainingTime s \<le> frame_duration s"
      and "\<forall>d\<in>set ds. 0 \<le> d \<and> d \<le> frame_duration s"
      and "\<not> (finished (updates ds s) \<and> Suc (index (updates ds s)) = length (frames s))"
  shows "real (index (updates ds s)) * frame_duration s - remainingTime (updates ds s) =
           real (index s) * frame_duration s - remainingTime s + sum_list ds
       \<and> index (updates ds s) < length (frames s) \<and> 0 \<le> remainingTime (updates ds s)"
  using assms
proof (induction ds arbitrary: s)
  case Nil
  then show ?case by simp
next
  case (Cons d ds)
  let ?t = "update d s"
  from Cons.prems(6) have d: "0 \<le> d" "d \<le> frame_duration s"
    and ds: "\<forall>e\<in>set ds. 0 \<le> e \<and> e \<le> frame_duration ?t" by simp_all
  note inv = update_invariant [OF Cons.prems(1-5) d]
  have nd: "\<not> (finished ?t \<and> Suc (index ?t) = length (frames s))"
  proof
    assume "finished ?t \<and> Suc (index ?t) = length (frames s)"
    then have "finished (updates ds ?t) \<and> Suc (index (updates ds ?t)) = length (frames ?t)"
      using updates_done [of ?t ds] Cons.prems(1) by simp
    with Cons.prems(7) show False by simp
  qed
  have step: "real (index ?t) * frame_duration s - remainingTime ?t =
         real (index s) * frame_duration s - remainingTime s + d"
    by (rule update_progress [OF Cons.prems(1,2) nd Cons.prems(3)])
  have "real (index (updates ds ?t)) * frame_duration ?t - remainingTime (updates ds ?t) =
           real (index ?t) * frame_duration ?t - remainingTime ?t + sum_list ds
       \<and> index (updates ds ?t) < length (frames ?t) \<and> 0 \<le> remainingTime (updates ds ?t)"
    by (rule Cons.IH) (use Cons.prems(1,2,7) inv ds in simp_all)
  with step show ?case by simp
qed

lemma sprite_done:
  assumes "\<not> loop s" and "0 < framesPerSecond s" and "index s < length (frames s)"
      and "0 \<le> remainingTime s" and "remainingTime s \<le> frame_duration s"
      and "\<forall>d\<in>set ds. 0 \<le> d \<and> d \<le> frame_duration s"
      and "real (length (frames s)) * frame_duration s < sum_list ds"
  shows "finished (updates ds s) \<and> Suc (index (updates ds s)) = length (frames s)"
proof (rule ccontr)
  assume nd: "\<not> (finished (updates ds s) \<and> Suc (index (updates ds s)) = length (frames s))"
  let ?P = "frame_duration s"
  let ?u = "updates ds s"
  from assms(2) have P: "0 < ?P" by (simp add: frame_duration_def)
  from updates_progress [OF assms(1-6) nd]
  have eq: "real (index ?u) * ?P - remainingTime ?u = real (index s) * ?P - remainingTime s + sum_list ds"
    and lt: "index ?u < length (frames s)" and r: "0 \<le> remainingTime ?u"
    by simp_all
  from lt have "real (index ?u) + 1 \<le> real (length (frames s))" by linarith
  with P have "(real (index ?u) + 1) * ?P \<le> real (length (frames s)) * ?P"
    by (intro mult_right_mono) simp_all
  then have a: "real (index ?u) * ?P \<le> real (length (frames s)) * ?P - ?P"
    by (simp add: algebra_simps)
  from P have b: "0 \<le> real (index s) * ?P" by simp
  from eq a b r assms(5) have "sum_list ds \<le> real (length (frames s)) * ?P" by linarith
  with assms(7) show False by simp
qed


text \<open>
  C4, as the code has it. For a sprite that does not loop, with \<open>n \<ge> 1\<close> frames: an update takes
  \<open>dt\<close> off the remaining time and, when the result is negative, adds the duration of a frame
  back and either moves to the next frame or, on the last frame, sets \<open>finished\<close>; it advances by at
  most one frame. Hence, when no update is longer than the duration of a frame, after updates
  that span more than \<open>n\<close> frame durations the sprite is finished on frame \<open>n - 1\<close>, and it stays so
  under every further update.
\<close>

theorem sprite_finishes:
  assumes "\<not> loop s" and "0 < framesPerSecond s" and "index s < length (frames s)"
      and "0 \<le> remainingTime s" and "remainingTime s \<le> frame_duration s"
      and "\<forall>d\<in>set dts. 0 \<le> d \<and> d \<le> frame_duration s"
      and "real (length (frames s)) * frame_duration s < sum_list dts"
  shows "remainingTime (update d s) =
           (if remainingTime s - d < 0 then remainingTime s - d + 1000 / framesPerSecond s
            else remainingTime s - d)
       \<and> index (update d s) =
           (if remainingTime s - d < 0 \<and> Suc (index s) < length (frames s) then Suc (index s)
            else index s)
       \<and> finished (update d s) =
           (finished s \<or> (remainingTime s - d < 0 \<and> length (frames s) \<le> Suc (index s)))
       \<and> finished (updates dts s) \<and> index (updates dts s) = length (frames s) - 1
       \<and> finished (updates (dts @ rest) s) \<and> index (updates (dts @ rest) s) = length (frames s) - 1"
proof -
  have "finished (updates dts s) \<and> Suc (index (updates dts s)) = length (frames s)"
    by (rule sprite_done [OF assms])
  then have now: "finished (updates dts s)" "Suc (index (updates dts s)) = length (frames s)"
    by simp_all
  have keep: "frames (updates ds t) = frames t \<and> loop (updates ds t) = loop t" for ds t
    by (induction ds arbitrary: t) simp_all
  have "finished (updates rest (updates dts s))
      \<and> Suc (index (updates rest (updates dts s))) = length (frames (updates dts s))
      \<and> frames (updates rest (updates dts s)) = frames (updates dts s)
      \<and> \<not> loop (updates rest (updates dts s))"
    by (rule updates_done) (use now assms(1) keep [of dts s] in simp_all)
  then have later: "finished (updates (dts @ rest) s)"
    "Suc (index (updates (dts @ rest) s)) = length (frames s)"
    by (simp_all add: updates_append keep)
  have step: "remainingTime (update d s) =
           (if remainingTime s - d < 0 then remainingTime s - d + 1000 / framesPerSecond s
            else remainingTime s - d)"
    by (simp add: update_remainingTime frame_duration_def)
  from now later have "index (updates dts s) = length (frames s) - 1"
    "index (updates (dts @ rest) s) = length (frames s) - 1"
    by linarith+
  with now(1) later(1) step update_index [OF assms(1), of d] update_finished [OF assms(1), of d]
  show ?thesis by simp
qed

lemma walk_sprite_fields:
  "loop walk_sprite = False" "framesPerSecond walk_sprite = 10" "index walk_sprite = 0"
  "length (frames walk_sprite) = 2" "remainingTime walk_sprite = 100" "finished walk_sprite = False"
  "frame_duration walk_sprite = 100"
  by (simp_all add: walk_sprite_def Sprite_def set_loop_def set_framesPerSecond_def Let_def
      frame_duration_def)

lemma still_sprite_fields:
  "loop still_sprite = False" "framesPerSecond still_sprite = 10" "index still_sprite = 0"
  "length (frames still_sprite) = 1" "remainingTime still_sprite = 100" "finished still_sprite = False"
  "frame_duration still_sprite = 100"
  by (simp_all add: still_sprite_def Sprite_def set_loop_def set_framesPerSecond_def Let_def
      frame_duration_def)

text \<open>
  Two frames of 100 ms and updates every 60 ms: the second frame comes up at the second update
  and the sprite is finished at the fourth, after 240 ms.
\<close>

theorem sprite_finishes_witness:
  "\<not> loop walk_sprite \<and> length (frames walk_sprite) = 2 \<and> frame_duration walk_sprite = 100
   \<and> sum_list [60, 60, 60, 60 :: real] = 240
   \<and> index (updates [60, 60] walk_sprite) = 1
   \<and> \<not> finished (updates [60, 60, 60] walk_sprite)
   \<and> finished (updates [60, 60, 60, 60] walk_sprite)
   \<and> index (updates [60, 60, 60, 60] walk_sprite) = 1
   \<and> finished (updates ([60, 60, 60, 60] @ [1000, 5]) walk_sprite)
   \<and> index (updates ([60, 60, 60, 60] @ [1000, 5]) walk_sprite) = 1"
proof -
  note f = walk_sprite_fields
  have 1: "\<not> loop walk_sprite" "0 < framesPerSecond walk_sprite"
    "index walk_sprite < length (frames walk_sprite)"
    "0 \<le> remainingTime walk_sprite" "remainingTime walk_sprite \<le> frame_duration walk_sprite"
    by (simp_all add: f)
  have 2: "\<forall>d\<in>set [60, 60, 60, 60]. 0 \<le> d \<and> d \<le> frame_duration walk_sprite"
    by (simp add: f)
  have 3: "real (length (frames walk_sprite)) * frame_duration walk_sprite < sum_list [60, 60, 60, 60]"
    by (simp add: f)
  have 4: "index (updates [60, 60] walk_sprite) = 1"
    by (simp add: update_index update_remainingTime update_finished f)
  have 5: "\<not> finished (updates [60, 60, 60] walk_sprite)"
    by (simp add: update_index update_remainingTime update_finished f)
  from sprite_finishes [OF 1 2 3, of _ "[1000, 5]"] 4 5 show ?thesis
    by (simp add: f)
qed

text \<open>
  The claim C4 as stated takes updates spanning at least \<open>n\<close> frame durations. With one frame of
  100 ms, one update of 100 ms spans one frame duration and leaves the remaining time at 0, which
  is not negative: the sprite is not finished. With two frames, one update of 1000 ms spans ten
  frame durations and advances by one frame only.
\<close>

theorem sprite_finishes_counterexample:
  "\<not> loop still_sprite \<and> length (frames still_sprite) = 1 \<and> frame_duration still_sprite = 100
   \<and> real (length (frames still_sprite)) * frame_duration still_sprite \<le> sum_list [100]
   \<and> remainingTime (updates [100] still_sprite) = 0
   \<and> \<not> finished (updates [100] still_sprite)
   \<and> \<not> loop walk_sprite \<and> length (frames walk_sprite) = 2 \<and> frame_duration walk_sprite = 100
   \<and> real (length (frames walk_sprite)) * frame_duration walk_sprite \<le> sum_list [1000]
   \<and> index (updates [1000] walk_sprite) = 1
   \<and> \<not> finished (updates [1000] walk_sprite)"
  by (simp add: update_index update_remainingTime update_finished
      walk_sprite_fields still_sprite_fields)

subsection \<open>Vector\<close>








lemma sin_cos_not_both_zero: "\<not> (sin a = 0 \<and> cos a = (0::real))"
proof
  assume "sin a = 0 \<and> cos a = 0"
  then have "(sin a)\<^sup>2 + (cos a)\<^sup>2 = 0" by simp
  then show False by (simp only: sin_cos_squared_add)
qed










end
